theory Spec2Isabelle
  imports Complex_Main "HOL-Library.AList" "HOL-Library.Sublist"
begin

section \<open>Strings, exceptions and the platform\<close>

text \<open>
  A Python \<^verbatim>\<open>str\<close> is a sequence of Unicode code points, so it is modelled as a list of
  natural numbers; \<open>py\<close> turns an ASCII literal into such a list.
\<close>

type_synonym str = "nat list"

definition py :: "string \<Rightarrow> str" where
  "py s = map of_char s"

text \<open>
  The exceptions (all subclasses of \<^verbatim>\<open>Exception\<close>) that the script and the library
  functions it calls can raise. Asynchronous interrupts are outside the model.
\<close>

datatype exn = ValueError | FileNotFoundError | IsADirectoryError | NotADirectoryError
  | PermissionError | OSError | CalledProcessError | UnicodeDecodeError

text \<open>
  What the script takes from the Python runtime and cannot be written down here:
  \<^item> \<open>uni_alnum\<close>: the Unicode database's alphanumeric test, consulted by \<^verbatim>\<open>\w\<close> for code
    points from 128 on;
  \<^item> \<open>float_of_rat\<close>: the correctly rounded conversion of an exact decimal to a double;
  \<^item> \<open>float_other\<close>: what \<^verbatim>\<open>float()\<close> does on a string that has a character other than a
    digit or a dot (signs, exponents, \<^verbatim>\<open>inf\<close>, \<dots>);
  \<^item> \<open>str_of_float\<close>: \<^verbatim>\<open>str()\<close> of a float, as the CSV writer calls it.
\<close>

record 'f platform =
  uni_alnum :: "nat \<Rightarrow> bool"
  float_of_rat :: "rat \<Rightarrow> 'f"
  float_other :: "str \<Rightarrow> exn + 'f"
  str_of_float :: "'f \<Rightarrow> str"

definition is_digit :: "nat \<Rightarrow> bool" where
  "is_digit c \<longleftrightarrow> 48 \<le> c \<and> c \<le> 57"

definition ascii_word :: "nat \<Rightarrow> bool" where
  "ascii_word c \<longleftrightarrow> is_digit c \<or> (65 \<le> c \<and> c \<le> 90) \<or> c = 95 \<or> (97 \<le> c \<and> c \<le> 122)"

text \<open>The class \<^verbatim>\<open>\w\<close> of a \<^verbatim>\<open>str\<close> pattern.\<close>

definition word_char :: "'f platform \<Rightarrow> nat \<Rightarrow> bool" where
  "word_char L c = (if c < 128 then ascii_word c else uni_alnum L c)"

text \<open>The class \<^verbatim>\<open>[0-9.]\<close>.\<close>

definition digit_or_dot :: "nat \<Rightarrow> bool" where
  "digit_or_dot c \<longleftrightarrow> is_digit c \<or> c = 46"

section \<open>The regular-expression engine\<close>

text \<open>
  The fragment of \<^verbatim>\<open>re\<close> that the pattern uses: literal text, a greedy \<^verbatim>\<open>+\<close> over a character
  class, and capturing groups. \<open>item_ends\<close> lists the ways one item can match at the start
  of \<open>s\<close> (the number of characters consumed and the groups captured), in the order in
  which the backtracking matcher tries them: the longest repetition first.
\<close>

datatype item = Lit str | Plus "nat \<Rightarrow> bool" | Group item

fun item_ends :: "item \<Rightarrow> str \<Rightarrow> (nat \<times> str list) list" where
  "item_ends (Lit l) s = (if prefix l s then [(length l, [])] else [])"
| "item_ends (Plus c) s = map (\<lambda>n. (n, [])) (rev [1..<Suc (length (takeWhile c s))])"
| "item_ends (Group i) s = map (\<lambda>(n, g). (n, take n s # g)) (item_ends i s)"

text \<open>
  \<open>match_here p s\<close> is \<^verbatim>\<open>re.match\<close>: the first way, in backtracking order, to match the
  whole pattern at the start of \<open>s\<close>.
\<close>

fun match_here :: "item list \<Rightarrow> str \<Rightarrow> (nat \<times> str list) option"
  and try_ends :: "item list \<Rightarrow> str \<Rightarrow> (nat \<times> str list) list \<Rightarrow> (nat \<times> str list) option"
where
  "match_here [] s = Some (0, [])"
| "match_here (i # r) s = try_ends r s (item_ends i s)"
| "try_ends r s [] = None"
| "try_ends r s ((n, g) # cands) =
     (case match_here r (drop n s) of
        Some (m, g') \<Rightarrow> Some (n + m, g @ g')
      | None \<Rightarrow> try_ends r s cands)"

text \<open>
  What the pattern means, without reference to the matcher: the words an item and a sequence
  of items admit, with the groups captured.
\<close>

fun item_lang :: "item \<Rightarrow> str \<Rightarrow> str list \<Rightarrow> bool" where
  "item_lang (Lit l) w g \<longleftrightarrow> w = l \<and> g = []"
| "item_lang (Plus c) w g \<longleftrightarrow> w \<noteq> [] \<and> list_all c w \<and> g = []"
| "item_lang (Group i) w g \<longleftrightarrow> (case g of [] \<Rightarrow> False | x # g' \<Rightarrow> x = w \<and> item_lang i w g')"

inductive seq_lang :: "item list \<Rightarrow> str \<Rightarrow> str list \<Rightarrow> bool" where
  seq_nil: "seq_lang [] [] []"
| seq_cons: "item_lang i w g \<Longrightarrow> seq_lang r w' g' \<Longrightarrow> seq_lang (i # r) (w @ w') (g @ g')"

record match =
  m_start :: nat
  m_end :: nat
  groups :: "str list"

text \<open>
  \<^verbatim>\<open>re.finditer\<close>: scan from left to right; after a match resume at its end (one character
  further after an empty match), otherwise move one character on. \<open>t\<close> is the text from
  position \<open>pos\<close> on.
\<close>

function scan :: "item list \<Rightarrow> nat \<Rightarrow> str \<Rightarrow> match list" where
  "scan p pos t =
     (case match_here p t of
        None \<Rightarrow> (case t of [] \<Rightarrow> [] | c # t' \<Rightarrow> scan p (Suc pos) t')
      | Some (n, g) \<Rightarrow>
          \<lparr>m_start = pos, m_end = pos + n, groups = g\<rparr> #
          (if t = [] then [] else scan p (pos + max 1 n) (drop (max 1 n) t)))"
  by pat_completeness auto
termination
  by (relation "measure (\<lambda>(p, pos, t). length t)") auto

declare scan.simps [simp del]

definition finditer :: "item list \<Rightarrow> str \<Rightarrow> match list" where
  "finditer p s = scan p 0 s"

section \<open>Float conversion\<close>

definition digits_val :: "str \<Rightarrow> nat" where
  "digits_val ds = foldl (\<lambda>a c. 10 * a + (c - 48)) 0 ds"

text \<open>The exact value of a decimal with at most one dot.\<close>

definition decimal_value :: "str \<Rightarrow> rat" where
  "decimal_value s =
     (let ip = takeWhile is_digit s; fp = drop (Suc (length ip)) s
      in of_nat (digits_val (ip @ fp)) / 10 ^ length fp)"

definition valid_decimal :: "str \<Rightarrow> bool" where
  "valid_decimal s \<longleftrightarrow> count_list s 46 \<le> 1 \<and> list_ex is_digit s"

text \<open>
  \<^verbatim>\<open>float(s)\<close>. On a string of digits and dots it succeeds exactly when there is a digit and
  at most one dot (\<^verbatim>\<open>float("5.")\<close> and \<^verbatim>\<open>float(".5")\<close> are fine, \<^verbatim>\<open>float(".")\<close> and
  \<^verbatim>\<open>float("1.2.3")\<close> raise \<^verbatim>\<open>ValueError\<close>).
\<close>

definition float_str :: "'f platform \<Rightarrow> str \<Rightarrow> exn + 'f" where
  "float_str L s =
     (if list_all digit_or_dot s
      then (if valid_decimal s then Inr (float_of_rat L (decimal_value s)) else Inl ValueError)
      else float_other L s)"

section \<open>Dictionaries\<close>

text \<open>
  A \<^verbatim>\<open>dict\<close> keeps its keys in insertion order, and assigning to a key that is present
  keeps the key's place: an association list with distinct keys.
\<close>

definition dict_set :: "('k \<times> 'v) list \<Rightarrow> 'k \<Rightarrow> 'v \<Rightarrow> ('k \<times> 'v) list" where
  "dict_set d k v = AList.update k v d"

definition dict_update :: "('k \<times> 'v) list \<Rightarrow> ('k \<times> 'v) list \<Rightarrow> ('k \<times> 'v) list" where
  "dict_update d other = fold (\<lambda>(k, v) acc. dict_set acc k v) other d"

definition dict_get :: "('k \<times> 'v) list \<Rightarrow> 'k \<Rightarrow> 'v \<Rightarrow> 'v" where
  "dict_get d k dflt = (case map_of d k of Some v \<Rightarrow> v | None \<Rightarrow> dflt)"

section \<open>parse_results\<close>

definition regex :: "'f platform \<Rightarrow> item list" where
  "regex L =
     [Lit (py ''Test Case '-[''), Plus (word_char L), Lit (py ''.''), Group (Plus (word_char L)),
      Lit (py '' ''), Group (Plus (word_char L)),
      Lit (py '']' measured [Time, seconds] average: ''), Group (Plus digit_or_dot),
      Lit (py '','')]"

text \<open>
  The loop body unpacks \<^verbatim>\<open>match.groups()\<close> into three names (a \<^verbatim>\<open>ValueError\<close> when there
  are not three), converts the third and stores it under the key built from the first two.
\<close>

fun parse_loop :: "'f platform \<Rightarrow> match list \<Rightarrow> (str \<times> 'f) list \<Rightarrow> exn + (str \<times> 'f) list" where
  "parse_loop L [] results = Inr results"
| "parse_loop L (m # ms) results =
     (case groups m of
        [classname, testname, average] \<Rightarrow>
          (case float_str L average of
             Inl e \<Rightarrow> Inl e
           | Inr v \<Rightarrow> parse_loop L ms (dict_set results (classname @ py ''.'' @ testname) v))
      | _ \<Rightarrow> Inl ValueError)"

definition parse_results :: "'f platform \<Rightarrow> str \<Rightarrow> exn + (str \<times> 'f) list" where
  "parse_results L output = parse_loop L (finditer (regex L) output) []"

text \<open>The key and the number that the loop body reads off a match.\<close>

definition key_of :: "match \<Rightarrow> str" where
  "key_of m = groups m ! 0 @ py ''.'' @ groups m ! 1"

definition average_of :: "match \<Rightarrow> str" where
  "average_of m = groups m ! 2"

section \<open>get_git_sha\<close>

text \<open>\<^verbatim>\<open>str.isspace\<close>, the characters that \<^verbatim>\<open>str.strip()\<close> removes.\<close>

definition is_space :: "nat \<Rightarrow> bool" where
  "is_space c \<longleftrightarrow> (9 \<le> c \<and> c \<le> 13) \<or> (28 \<le> c \<and> c \<le> 32) \<or> c = 133 \<or> c = 160 \<or> c = 5760
     \<or> (8192 \<le> c \<and> c \<le> 8202) \<or> c = 8232 \<or> c = 8233 \<or> c = 8239 \<or> c = 8287 \<or> c = 12288"

definition strip :: "str \<Rightarrow> str" where
  "strip s = rev (dropWhile is_space (rev (dropWhile is_space s)))"

text \<open>
  The argument is the outcome of \<^verbatim>\<open>subprocess.check_output([...]).decode('utf-8')\<close>: the
  decoded standard output, or the exception raised because the command could not be started
  (\<open>FileNotFoundError\<close>), exited with a non-zero status (\<open>CalledProcessError\<close>) or printed
  bytes that do not decode (\<open>UnicodeDecodeError\<close>). The handler is \<^verbatim>\<open>except Exception\<close>.
\<close>

definition get_git_sha :: "exn + str \<Rightarrow> exn + str" where
  "get_git_sha lookup = (case lookup of Inr out \<Rightarrow> Inr (strip out) | Inl e \<Rightarrow> Inr (py ''unknown''))"

section \<open>The CSV writer and write_csv_row\<close>

text \<open>The values a report row holds: strings and floats.\<close>

datatype 'f pyval = PStr str | PFloat 'f

definition field_str :: "'f platform \<Rightarrow> 'f pyval \<Rightarrow> str" where
  "field_str L v = (case v of PStr s \<Rightarrow> s | PFloat x \<Rightarrow> str_of_float L x)"

text \<open>
  \<^verbatim>\<open>csv.writer\<close> with the default dialect \<^verbatim>\<open>excel\<close>: fields joined by commas, a field with a
  comma, a double quote, a carriage return or a line feed is put in double quotes with its
  quotes doubled, a record of one empty field is written as two quotes, and the record ends
  with \<^verbatim>\<open>\r\n\<close>.
\<close>

definition needs_quote :: "str \<Rightarrow> bool" where
  "needs_quote s = list_ex (\<lambda>c. c = 44 \<or> c = 34 \<or> c = 13 \<or> c = 10) s"

definition quote_field :: "str \<Rightarrow> str" where
  "quote_field s =
     (if needs_quote s then [34] @ concat (map (\<lambda>c. if c = 34 then [34, 34] else [c]) s) @ [34]
      else s)"

fun join :: "str \<Rightarrow> str list \<Rightarrow> str" where
  "join sep [] = []"
| "join sep [x] = x"
| "join sep (x # y # r) = x @ sep @ join sep (y # r)"

definition csv_record :: "str list \<Rightarrow> str" where
  "csv_record cells =
     (if cells = [[]] then [34, 34] else join [44] (map quote_field cells)) @ [13, 10]"

text \<open>
  \<^verbatim>\<open>csv.DictWriter\<close> with its defaults \<^verbatim>\<open>restval=""\<close> and \<^verbatim>\<open>extrasaction="raise"\<close>: a row
  with a key that is no field name raises \<^verbatim>\<open>ValueError\<close>, a field name that is no key of the
  row gives an empty cell.
\<close>

definition dict_to_list :: "str list \<Rightarrow> (str \<times> 'f pyval) list \<Rightarrow> exn + 'f pyval list" where
  "dict_to_list fieldnames rowdict =
     (if list_ex (\<lambda>k. k \<notin> set fieldnames) (map fst rowdict) then Inl ValueError
      else Inr (map (\<lambda>key. dict_get rowdict key (PStr [])) fieldnames))"

text \<open>
  The file system as \<^verbatim>\<open>open\<close> shows it. \<open>reading d path\<close> is what opening the path for
  reading meets: the text of the file there, or the exception that \<^verbatim>\<open>open\<close> raises, which is
  \<^verbatim>\<open>FileNotFoundError\<close> when no file is there (also when the directory of the path is missing
  or the path is empty), \<^verbatim>\<open>IsADirectoryError\<close> on a directory, \<^verbatim>\<open>NotADirectoryError\<close>,
  \<^verbatim>\<open>PermissionError\<close> and so on. \<open>appending d path\<close> is the exception, if any, that opening
  the path for appending raises: \<^verbatim>\<open>FileNotFoundError\<close> when the directory of the path is
  missing or the path is empty, \<^verbatim>\<open>IsADirectoryError\<close>, \<^verbatim>\<open>PermissionError\<close> and so on.
\<close>

record fs =
  reading :: "str \<Rightarrow> exn + str"
  appending :: "str \<Rightarrow> exn option"

text \<open>The file system with the given text in the file at the path, all else as it was.\<close>

definition with_file :: "fs \<Rightarrow> str \<Rightarrow> str \<Rightarrow> fs" where
  "with_file d path data = d\<lparr>reading := (reading d)(path := Inr data)\<rparr>"

text \<open>
  \<^verbatim>\<open>open(path, "a")\<close>: it raises and changes nothing, or it succeeds, and then it has made an
  empty file where there was none.
\<close>

definition open_append :: "fs \<Rightarrow> str \<Rightarrow> exn + fs" where
  "open_append d path =
     (case appending d path of
        Some e \<Rightarrow> Inl e
      | None \<Rightarrow> Inr (if reading d path = Inl FileNotFoundError then with_file d path [] else d))"

text \<open>
  A write to a file opened for appending adds to its end. It is taken to succeed: a device
  fault while writing (a full disk) and a text that the file's encoding cannot express are
  outside the model.
\<close>

definition fwrite :: "fs \<Rightarrow> str \<Rightarrow> str \<Rightarrow> fs" where
  "fwrite files path data =
     with_file files path ((case reading files path of Inr old \<Rightarrow> old | Inl e \<Rightarrow> []) @ data)"

definition writerow ::
  "'f platform \<Rightarrow> str list \<Rightarrow> fs \<Rightarrow> str \<Rightarrow> (str \<times> 'f pyval) list \<Rightarrow> exn option \<times> fs" where
  "writerow L fieldnames files path rowdict =
     (case dict_to_list fieldnames rowdict of
        Inl e \<Rightarrow> (Some e, files)
      | Inr cells \<Rightarrow> (None, fwrite files path (csv_record (map (field_str L) cells))))"

definition writeheader :: "'f platform \<Rightarrow> str list \<Rightarrow> fs \<Rightarrow> str \<Rightarrow> exn option \<times> fs" where
  "writeheader L fieldnames files path =
     writerow L fieldnames files path (dict_update [] (zip fieldnames (map PStr fieldnames)))"

text \<open>
  \<open>write_csv_row\<close> returns the exception that left it, if any, and the file system as it
  is then. Lines 34 to 38: the read-open sets \<^verbatim>\<open>file_exists\<close>; its \<^verbatim>\<open>FileNotFoundError\<close> is
  caught, any other exception of it leaves the function. Line 40: the append-open, whose
  exceptions are not caught. Lines 41 to 44: the header when \<^verbatim>\<open>file_exists\<close> is false, then
  the row; when \<^verbatim>\<open>writerow\<close> raises, what was written before stays in the file.
\<close>

definition write_csv_row ::
  "'f platform \<Rightarrow> fs \<Rightarrow> str \<Rightarrow> (str \<times> 'f pyval) list \<Rightarrow> str list \<Rightarrow> exn option \<times> fs" where
  "write_csv_row L files csvfile row headers =
     (case (case reading files csvfile of
              Inr data \<Rightarrow> Inr True
            | Inl e \<Rightarrow> (if e = FileNotFoundError then Inr False else Inl e)) of
        Inl e \<Rightarrow> (Some e, files)
      | Inr file_exists \<Rightarrow>
          (case open_append files csvfile of
             Inl e \<Rightarrow> (Some e, files)
           | Inr opened \<Rightarrow>
               (if \<not> file_exists
                then (case writeheader L headers opened csvfile of
                        (Some e, files') \<Rightarrow> (Some e, files')
                      | (None, files') \<Rightarrow> writerow L headers files' csvfile row)
                else writerow L headers opened csvfile row)))"

text \<open>
  Directories for the closed instances: one that holds the given files and lets every path be
  opened for appending; one without the subdirectory \<^verbatim>\<open>nodir\<close>; one in which \<^verbatim>\<open>build\<close> is a
  directory.
\<close>

definition on_disk :: "(str \<rightharpoonup> str) \<Rightarrow> fs" where
  "on_disk m =
     \<lparr>reading = (\<lambda>path. case m path of Some data \<Rightarrow> Inr data | None \<Rightarrow> Inl FileNotFoundError),
      appending = (\<lambda>path. None)\<rparr>"

definition disk_no_dir :: fs where
  "disk_no_dir =
     \<lparr>reading = (\<lambda>path. Inl FileNotFoundError),
      appending = (\<lambda>path. if path = py ''nodir/f.csv'' then Some FileNotFoundError else None)\<rparr>"

definition disk_with_dir :: fs where
  "disk_with_dir =
     \<lparr>reading = (\<lambda>path. if path = py ''build'' then Inl IsADirectoryError else Inl FileNotFoundError),
      appending = (\<lambda>path. if path = py ''build'' then Some IsADirectoryError else None)\<rparr>"

section \<open>main\<close>

text \<open>
  What a run meets outside the script: the outcome of the test command (its captured output,
  or the exception of a failed launch), the clock's ISO timestamp, the outcome of the revision
  lookup, and the files on disk.
\<close>

record world =
  xcodebuild :: "exn + str"
  clock :: str
  git :: "exn + str"
  disk :: fs

record 'f run =
  raised :: "exn option"
  files_after :: fs
  printed :: "(str \<times> 'f pyval) list list"

definition run_tests :: "world \<Rightarrow> exn + str" where
  "run_tests w = xcodebuild w"

text \<open>
  Lines 47 to 55 of \<open>main\<close>: the row and the header list with which line 56 calls
  \<open>write_csv_row\<close>, or the exception raised before that.
\<close>

definition report :: "'f platform \<Rightarrow> world \<Rightarrow> exn + ((str \<times> 'f pyval) list \<times> str list)" where
  "report L w =
     (case run_tests w of
        Inl e \<Rightarrow> Inl e
      | Inr out \<Rightarrow>
          (case parse_results L out of
             Inl e \<Rightarrow> Inl e
           | Inr results \<Rightarrow>
               (case get_git_sha (git w) of
                  Inl e \<Rightarrow> Inl e
                | Inr git_sha \<Rightarrow>
                    Inr (dict_update [(py ''date'', PStr (clock w)), (py ''git_sha'', PStr git_sha)]
                           (map (\<lambda>(k, v). (k, PFloat v)) results),
                         [py ''date'', py ''git_sha''] @ map fst results))))"

definition main :: "'f platform \<Rightarrow> world \<Rightarrow> 'f run" where
  "main L w =
     (case report L w of
        Inl e \<Rightarrow> \<lparr>raised = Some e, files_after = disk w, printed = []\<rparr>
      | Inr (row, headers) \<Rightarrow>
          (case write_csv_row L (disk w) (py ''perf_results.csv'') row headers of
             (Some e, files') \<Rightarrow> \<lparr>raised = Some e, files_after = files', printed = []\<rparr>
           | (None, files') \<Rightarrow> \<lparr>raised = None, files_after = files', printed = [row]\<rparr>))"

text \<open>
  A platform for the closed instances below: floats are kept as exact rationals, no
  non-ASCII character is alphanumeric.
\<close>

definition plat0 :: "rat platform" where
  "plat0 = \<lparr>uni_alnum = (\<lambda>c. False), float_of_rat = (\<lambda>q. q),
     float_other = (\<lambda>s. Inl ValueError), str_of_float = (\<lambda>q. py ''0'')\<rparr>"

text \<open>A captured output in which the same test reports twice, for the closed instances.\<close>

definition two_reports :: str where
  "two_reports =
     py ''Test Case '-[M.C t]' measured [Time, seconds] average: 0.5,'' @ [10] @
     py ''Test Case '-[M.C t]' measured [Time, seconds] average: 0.25,'' @ [10]"

text \<open>The same with a second number that has two dots.\<close>

definition two_reports_bad :: str where
  "two_reports_bad =
     py ''Test Case '-[M.C t]' measured [Time, seconds] average: 0.5,'' @ [10] @
     py ''Test Case '-[M.C t]' measured [Time, seconds] average: 1.2.3,'' @ [10]"

text \<open>
  The keys of a sequence in the order in which each is first seen: every later repetition of
  a key is left out.
\<close>

fun first_seen :: "'a list \<Rightarrow> 'a list" where
  "first_seen [] = []"
| "first_seen (x # xs) = x # filter (\<lambda>y. y \<noteq> x) (first_seen xs)"

text \<open>Worlds for the closed instances.\<close>

definition world_two :: world where
  "world_two = \<lparr>xcodebuild = Inr two_reports, clock = py ''2024-05-01T12:00:00'',
     git = Inl CalledProcessError, disk = on_disk Map.empty\<rparr>"

definition world_malformed :: world where
  "world_malformed =
     \<lparr>xcodebuild = Inr (py ''Test Case '-[A.B c]' measured [Time, seconds] average: 1.2.3,''),
      clock = py ''2024-05-01T12:00:00'', git = Inr (py ''0a1b2c'' @ [10]),
      disk = on_disk [py ''perf_results.csv'' \<mapsto> py ''date,git_sha'' @ [13, 10]]\<rparr>"

definition world_no_tool :: world where
  "world_no_tool = \<lparr>xcodebuild = Inl FileNotFoundError, clock = py ''2024-05-01T12:00:00'',
     git = Inr (py ''0a1b2c'' @ [10]), disk = on_disk Map.empty\<rparr>"

text \<open>
  The lines of a text, as \<^verbatim>\<open>text.split("\n")\<close> gives them, and the part of a text before its
  first line feed.
\<close>

fun lines_of :: "str \<Rightarrow> str list" where
  "lines_of [] = [[]]"
| "lines_of (c # s) =
     (if c = 10 then [] # lines_of s
      else (case lines_of s of [] \<Rightarrow> [[c]] | l # ls \<Rightarrow> (c # l) # ls))"

definition first_line :: "str \<Rightarrow> str" where
  "first_line s = takeWhile (\<lambda>c. c \<noteq> 10) s"

text \<open>An item avoids a character when no text it matches contains that character.\<close>

fun item_avoids :: "nat \<Rightarrow> item \<Rightarrow> bool" where
  "item_avoids x (Lit l) \<longleftrightarrow> x \<notin> set l"
| "item_avoids x (Plus c) \<longleftrightarrow> \<not> c x"
| "item_avoids x (Group i) \<longleftrightarrow> item_avoids x i"

text \<open>A captured output without a report: the second line has no space in the bracket.\<close>

definition no_reports :: str where
  "no_reports =
     py ''Test Suite 'All tests' started.'' @ [10] @
     py ''Test Case '-[TendrilTreeTests.testInsert] measured [Time, seconds] average: 0.003,'' @ [10]"




section \<open>Properties of the matcher\<close>

lemma item_ends_le: "(n, g) \<in> set (item_ends i s) \<Longrightarrow> n \<le> length s"
proof (induction i arbitrary: n g)
  case (Lit l)
  then show ?case by (auto split: if_splits dest: prefix_length_le)
next
  case (Plus c)
  have "length (takeWhile c s) \<le> length s" by (rule length_takeWhile_le)
  with Plus show ?case by auto
next
  case (Group i)
  then show ?case by auto
qed

lemma match_try_le:
  "match_here p s = Some (n, g) \<Longrightarrow> n \<le> length s"
  "(\<forall>c \<in> set cands. fst c \<le> length s') \<Longrightarrow> try_ends r s' cands = Some (n', g') \<Longrightarrow> n' \<le> length s'"
proof (induction p s and r s' cands arbitrary: n g and n' g' rule: match_here_try_ends.induct)
  case (1 s)
  then show ?case by simp
next
  case (2 i r s)
  have "\<forall>c \<in> set (item_ends i s). fst c \<le> length s"
    using item_ends_le by fastforce
  with 2 show ?case by simp
next
  case (3 r s)
  then show ?case by simp
next
  case (4 r s k h cands)
  show ?case
  proof (cases "match_here r (drop k s)")
    case None
    with 4 show ?thesis by simp
  next
    case (Some a)
    obtain m g2 where a: "a = (m, g2)" by (cases a)
    with Some 4(1) have "m \<le> length (drop k s)" by blast
    moreover from 4(3) have "k \<le> length s" by simp
    moreover from 4(4) Some a have "n' = k + m" by simp
    ultimately show ?thesis by simp
  qed
qed

lemma match_here_le: "match_here p s = Some (n, g) \<Longrightarrow> n \<le> length s"
  by (rule match_try_le(1))

inductive_cases seq_nilE: "seq_lang [] w g"
inductive_cases seq_consE: "seq_lang (i # r) w g"

lemma item_ends_sound: "(n, g) \<in> set (item_ends i s) \<Longrightarrow> item_lang i (take n s) g"
proof (induction i arbitrary: n g)
  case (Lit l)
  then show ?case by (auto split: if_splits simp: prefix_def)
next
  case (Plus c)
  then have n: "1 \<le> n" "n \<le> length (takeWhile c s)" and g: "g = []" by auto
  have "take n s = take n (takeWhile c s @ dropWhile c s)" by simp
  also have "\<dots> = take n (takeWhile c s)" using n by (simp del: takeWhile_dropWhile_id)
  finally have "take n s = take n (takeWhile c s)" .
  moreover have "list_all c (take n (takeWhile c s))"
    by (auto simp: list_all_iff dest: in_set_takeD set_takeWhileD)
  moreover from n have "take n (takeWhile c s) \<noteq> []" by auto
  ultimately show ?case using g by simp
next
  case (Group i)
  then show ?case by auto
qed

lemma match_try_sound:
  "match_here p s = Some (n, g) \<Longrightarrow> seq_lang p (take n s) g"
  "(\<forall>c \<in> set cands. fst c \<le> length s' \<and> item_lang i (take (fst c) s') (snd c)) \<Longrightarrow>
     try_ends r s' cands = Some (n', g') \<Longrightarrow> seq_lang (i # r) (take n' s') g'"
proof (induction p s and r s' cands arbitrary: n g and n' g' i rule: match_here_try_ends.induct)
  case (1 s)
  then show ?case by (auto intro: seq_nil)
next
  case (2 i r s)
  have "\<forall>c \<in> set (item_ends i s). fst c \<le> length s \<and> item_lang i (take (fst c) s) (snd c)"
    using item_ends_le item_ends_sound by fastforce
  with 2 show ?case by simp
next
  case (3 r s)
  then show ?case by simp
next
  case (4 r s k h cands)
  show ?case
  proof (cases "match_here r (drop k s)")
    case None
    with 4 show ?thesis by simp
  next
    case (Some a)
    obtain m g2 where a: "a = (m, g2)" by (cases a)
    with Some 4(1) have "seq_lang r (take m (drop k s)) g2" by blast
    moreover from 4(3) have "item_lang i (take k s) h" by simp
    ultimately have "seq_lang (i # r) (take k s @ take m (drop k s)) (h @ g2)"
      by (rule seq_cons[rotated])
    moreover from 4(4) Some a have "n' = k + m" "g' = h @ g2" by simp_all
    ultimately show ?thesis by (simp add: take_add)
  qed
qed

lemma match_here_sound: "match_here p s = Some (n, g) \<Longrightarrow> seq_lang p (take n s) g"
  by (rule match_try_sound(1))

lemma seq_lang_Lit: "seq_lang (Lit l # r) w g \<Longrightarrow> \<exists>w'. w = l @ w' \<and> seq_lang r w' g"
  by (erule seq_consE) auto

lemma seq_lang_Plus:
  "seq_lang (Plus c # r) w g \<Longrightarrow> \<exists>u w'. w = u @ w' \<and> u \<noteq> [] \<and> list_all c u \<and> seq_lang r w' g"
  by (erule seq_consE) auto

lemma seq_lang_Group_Plus:
  "seq_lang (Group (Plus c) # r) w g \<Longrightarrow>
     \<exists>u w' g'. w = u @ w' \<and> g = u # g' \<and> u \<noteq> [] \<and> list_all c u \<and> seq_lang r w' g'"
  by (erule seq_consE) (auto split: list.splits)

lemma seq_lang_Nil: "seq_lang [] w g \<Longrightarrow> w = [] \<and> g = []"
  by (erule seq_nilE) auto

lemma regex_shape:
  assumes "seq_lang (regex L) w g"
  shows "\<exists>m a b c. w = py ''Test Case '-['' @ m @ py ''.'' @ a @ py '' '' @ b
            @ py '']' measured [Time, seconds] average: '' @ c @ py '',''
          \<and> g = [a, b, c]
          \<and> m \<noteq> [] \<and> list_all (word_char L) m
          \<and> a \<noteq> [] \<and> list_all (word_char L) a
          \<and> b \<noteq> [] \<and> list_all (word_char L) b
          \<and> c \<noteq> [] \<and> list_all digit_or_dot c"
proof -
  from assms obtain w1 where 1: "w = py ''Test Case '-['' @ w1"
    and s1: "seq_lang (tl (regex L)) w1 g"
    unfolding regex_def by (auto dest!: seq_lang_Lit)
  from s1 obtain m w2 where 2: "w1 = m @ w2" "m \<noteq> []" "list_all (word_char L) m"
    and s2: "seq_lang (drop 2 (regex L)) w2 g"
    unfolding regex_def by (auto dest!: seq_lang_Plus)
  from s2 obtain w3 where 3: "w2 = py ''.'' @ w3"
    and s3: "seq_lang (drop 3 (regex L)) w3 g"
    unfolding regex_def by (auto dest!: seq_lang_Lit)
  from s3 obtain a w4 g4 where 4: "w3 = a @ w4" "g = a # g4" "a \<noteq> []" "list_all (word_char L) a"
    and s4: "seq_lang (drop 4 (regex L)) w4 g4"
    unfolding regex_def by (auto dest!: seq_lang_Group_Plus)
  from s4 obtain w5 where 5: "w4 = py '' '' @ w5"
    and s5: "seq_lang (drop 5 (regex L)) w5 g4"
    unfolding regex_def by (auto dest!: seq_lang_Lit)
  from s5 obtain b w6 g6 where 6: "w5 = b @ w6" "g4 = b # g6" "b \<noteq> []" "list_all (word_char L) b"
    and s6: "seq_lang (drop 6 (regex L)) w6 g6"
    unfolding regex_def by (auto dest!: seq_lang_Group_Plus)
  from s6 obtain w7 where 7: "w6 = py '']' measured [Time, seconds] average: '' @ w7"
    and s7: "seq_lang (drop 7 (regex L)) w7 g6"
    unfolding regex_def by (auto dest!: seq_lang_Lit)
  from s7 obtain c w8 g8 where 8: "w7 = c @ w8" "g6 = c # g8" "c \<noteq> []" "list_all digit_or_dot c"
    and s8: "seq_lang (drop 8 (regex L)) w8 g8"
    unfolding regex_def by (auto dest!: seq_lang_Group_Plus)
  from s8 obtain w9 where 9: "w8 = py '','' @ w9"
    and s9: "seq_lang (drop 9 (regex L)) w9 g8"
    unfolding regex_def by (auto dest!: seq_lang_Lit)
  from s9 have 10: "w9 = []" "g8 = []"
    unfolding regex_def by (auto dest!: seq_lang_Nil)
  show ?thesis
    using 1 2 3 4 5 6 7 8 9 10 by blast
qed

lemma scan_None:
  "match_here p t = None \<Longrightarrow> scan p pos t = (case t of [] \<Rightarrow> [] | c # t' \<Rightarrow> scan p (Suc pos) t')"
  by (subst scan.simps) simp

lemma scan_Some:
  "match_here p t = Some (n, g) \<Longrightarrow>
   scan p pos t = \<lparr>m_start = pos, m_end = pos + n, groups = g\<rparr> #
     (if t = [] then [] else scan p (pos + max 1 n) (drop (max 1 n) t))"
  by (subst scan.simps) simp

lemma scan_starts: "m \<in> set (scan p pos t) \<Longrightarrow> pos \<le> m_start m"
proof (induction p pos t rule: scan.induct)
  case (1 p pos t)
  show ?case
  proof (cases "match_here p t")
    case None
    show ?thesis
    proof (cases t)
      case Nil
      with None 1(3) show ?thesis by (simp add: scan_None)
    next
      case (Cons c t')
      with None 1(3) have "m \<in> set (scan p (Suc pos) t')" by (simp add: scan_None)
      from 1(1)[OF None Cons this] show ?thesis by simp
    qed
  next
    case (Some a)
    obtain n g where a: "a = (n, g)" by (cases a)
    from 1(3) Some a consider "m = \<lparr>m_start = pos, m_end = pos + n, groups = g\<rparr>"
      | "t \<noteq> []" "m \<in> set (scan p (pos + max 1 n) (drop (max 1 n) t))"
      by (auto simp: scan_Some split: if_splits)
    then show ?thesis
    proof cases
      case 1
      then show ?thesis by simp
    next
      case 2
      with 1(2)[OF Some a[symmetric] 2(1)] have "pos + max 1 n \<le> m_start m" by blast
      then show ?thesis by simp
    qed
  qed
qed

lemma scan_sorted: "sorted_wrt (\<lambda>a b. m_end a \<le> m_start b) (scan p pos t)"
proof (induction p pos t rule: scan.induct)
  case (1 p pos t)
  show ?case
  proof (cases "match_here p t")
    case None
    show ?thesis
    proof (cases t)
      case Nil
      with None show ?thesis by (simp add: scan_None)
    next
      case (Cons c t')
      with None 1(1)[OF None Cons] show ?thesis by (simp add: scan_None)
    qed
  next
    case (Some a)
    obtain n g where a: "a = (n, g)" by (cases a)
    show ?thesis
    proof (cases "t = []")
      case True
      with Some a show ?thesis by (simp add: scan_Some)
    next
      case False
      have "\<forall>m \<in> set (scan p (pos + max 1 n) (drop (max 1 n) t)). pos + n \<le> m_start m"
        using scan_starts by fastforce
      with 1(2)[OF Some a[symmetric] False] Some a False show ?thesis by (simp add: scan_Some)
    qed
  qed
qed

lemma scan_is_match:
  "m \<in> set (scan p pos t) \<Longrightarrow>
   \<exists>k \<le> length t. m_start m = pos + k \<and>
      match_here p (drop k t) = Some (m_end m - m_start m, groups m)"
proof (induction p pos t rule: scan.induct)
  case (1 p pos t)
  show ?case
  proof (cases "match_here p t")
    case None
    show ?thesis
    proof (cases t)
      case Nil
      with None 1(3) show ?thesis by (simp add: scan_None)
    next
      case (Cons c t')
      with None 1(3) have "m \<in> set (scan p (Suc pos) t')" by (simp add: scan_None)
      from 1(1)[OF None Cons this] obtain k where "k \<le> length t'" "m_start m = Suc pos + k"
        "match_here p (drop k t') = Some (m_end m - m_start m, groups m)" by blast
      with Cons show ?thesis by (intro exI[of _ "Suc k"]) simp
    qed
  next
    case (Some a)
    obtain n g where a: "a = (n, g)" by (cases a)
    from 1(3) Some a consider "m = \<lparr>m_start = pos, m_end = pos + n, groups = g\<rparr>"
      | "t \<noteq> []" "m \<in> set (scan p (pos + max 1 n) (drop (max 1 n) t))"
      by (auto simp: scan_Some split: if_splits)
    then show ?thesis
    proof cases
      case 1
      with Some a show ?thesis by (intro exI[of _ 0]) simp
    next
      case 2
      from 1(2)[OF Some a[symmetric] 2] obtain k where k: "k \<le> length (drop (max 1 n) t)"
        "m_start m = pos + max 1 n + k"
        "match_here p (drop k (drop (max 1 n) t)) = Some (m_end m - m_start m, groups m)" by blast
      from Some a have "n \<le> length t" by (auto dest: match_here_le)
      with 2(1) have "max 1 n \<le> length t" by (cases t) auto
      with k show ?thesis by (intro exI[of _ "max 1 n + k"]) (auto simp: add.commute)
    qed
  qed
qed

lemma scan_Nil_iff: "scan p pos t = [] \<longleftrightarrow> (\<forall>k \<le> length t. match_here p (drop k t) = None)"
proof (induction p pos t rule: scan.induct)
  case (1 p pos t)
  show ?case
  proof (cases "match_here p t")
    case None
    show ?thesis
    proof (cases t)
      case Nil
      with None show ?thesis by (simp add: scan_None)
    next
      case (Cons c t')
      have "(\<forall>k \<le> length t. match_here p (drop k t) = None) \<longleftrightarrow>
            (\<forall>k \<le> length t'. match_here p (drop k t') = None)"
      proof
        assume l: "\<forall>k \<le> length t. match_here p (drop k t) = None"
        show "\<forall>k \<le> length t'. match_here p (drop k t') = None"
        proof (intro allI impI)
          fix k assume "k \<le> length t'"
          then have "Suc k \<le> length t" using Cons by simp
          with l have "match_here p (drop (Suc k) t) = None" by blast
          with Cons show "match_here p (drop k t') = None" by simp
        qed
      next
        assume r: "\<forall>k \<le> length t'. match_here p (drop k t') = None"
        show "\<forall>k \<le> length t. match_here p (drop k t) = None"
        proof (intro allI impI)
          fix k assume "k \<le> length t"
          with r Cons None show "match_here p (drop k t) = None" by (cases k) auto
        qed
      qed
      with 1(1)[OF None Cons] None Cons show ?thesis by (simp add: scan_None)
    qed
  next
    case (Some a)
    obtain n g where a: "a = (n, g)" by (cases a)
    with Some have "scan p pos t \<noteq> []" by (simp add: scan_Some)
    moreover from Some have "\<not> (\<forall>k \<le> length t. match_here p (drop k t) = None)"
      by (auto intro: exI[of _ 0])
    ultimately show ?thesis by simp
  qed
qed

section \<open>Properties of the extraction loop\<close>

lemma finditer_match:
  assumes "m \<in> set (finditer p t)"
  shows "m_start m \<le> length t \<and>
         match_here p (drop (m_start m) t) = Some (m_end m - m_start m, groups m)"
  using scan_is_match[of m p 0 t] assms by (auto simp: finditer_def)

lemma finditer_groups:
  assumes "m \<in> set (finditer (regex L) t)"
  shows "\<exists>a b c. groups m = [a, b, c]
          \<and> a \<noteq> [] \<and> list_all (word_char L) a
          \<and> b \<noteq> [] \<and> list_all (word_char L) b
          \<and> c \<noteq> [] \<and> list_all digit_or_dot c"
proof -
  from finditer_match[OF assms]
  have "seq_lang (regex L) (take (m_end m - m_start m) (drop (m_start m) t)) (groups m)"
    by (auto dest: match_here_sound)
  from regex_shape[OF this] show ?thesis by blast
qed

lemma parse_loop_Cons:
  "parse_loop L (m # ms) d0 =
     (if length (groups m) = 3
      then (case float_str L (average_of m) of
              Inl e \<Rightarrow> Inl e
            | Inr v \<Rightarrow> parse_loop L ms (dict_set d0 (key_of m) v))
      else Inl ValueError)"
  by (auto simp: key_of_def average_of_def split: list.splits sum.splits)

declare parse_loop.simps(2) [simp del]

lemma parse_loop_other_key:
  "parse_loop L ms d0 = Inr d \<Longrightarrow> \<forall>m \<in> set ms. key_of m \<noteq> k \<Longrightarrow> map_of d k = map_of d0 k"
proof (induction ms arbitrary: d0)
  case Nil
  then show ?case by simp
next
  case (Cons m ms)
  from Cons.prems(1) obtain v where v: "float_str L (average_of m) = Inr v"
    and r: "parse_loop L ms (dict_set d0 (key_of m) v) = Inr d"
    by (auto simp: parse_loop_Cons split: if_splits sum.splits)
  from Cons.IH[OF r] Cons.prems(2) have "map_of d k = map_of (dict_set d0 (key_of m) v) k" by simp
  with Cons.prems(2) show ?case by (auto simp add: dict_set_def update_conv')
qed

lemma parse_loop_last_wins:
  "parse_loop L ms d0 = Inr d \<Longrightarrow> i < length ms \<Longrightarrow>
   \<forall>j. i < j \<and> j < length ms \<longrightarrow> key_of (ms ! j) \<noteq> key_of (ms ! i) \<Longrightarrow>
   map_option Inr (map_of d (key_of (ms ! i))) = Some (float_str L (average_of (ms ! i)))"
proof (induction ms arbitrary: d0 i)
  case Nil
  then show ?case by simp
next
  case (Cons m ms)
  from Cons.prems(1) obtain v where v: "float_str L (average_of m) = Inr v"
    and r: "parse_loop L ms (dict_set d0 (key_of m) v) = Inr d"
    by (auto simp: parse_loop_Cons split: if_splits sum.splits)
  show ?case
  proof (cases i)
    case 0
    have "\<forall>m' \<in> set ms. key_of m' \<noteq> key_of m"
    proof
      fix m' assume "m' \<in> set ms"
      then obtain j where "j < length ms" "ms ! j = m'" by (auto simp: in_set_conv_nth)
      with Cons.prems(3)[rule_format, of "Suc j"] 0 show "key_of m' \<noteq> key_of m" by simp
    qed
    from parse_loop_other_key[OF r this]
    have "map_of d (key_of m) = Some v" by (simp add: dict_set_def update_conv')
    with 0 v show ?thesis by simp
  next
    case (Suc i')
    have "\<forall>j. i' < j \<and> j < length ms \<longrightarrow> key_of (ms ! j) \<noteq> key_of (ms ! i')"
    proof (intro allI impI)
      fix j assume "i' < j \<and> j < length ms"
      with Cons.prems(3)[rule_format, of "Suc j"] Suc show "key_of (ms ! j) \<noteq> key_of (ms ! i')"
        by simp
    qed
    with Cons.IH[OF r, of i'] Cons.prems(2) Suc show ?thesis by simp
  qed
qed

lemma parse_loop_keys:
  "parse_loop L ms d0 = Inr d \<Longrightarrow>
   map fst d = fold (\<lambda>k acc. if k \<in> set acc then acc else acc @ [k]) (map key_of ms) (map fst d0)"
proof (induction ms arbitrary: d0)
  case Nil
  then show ?case by simp
next
  case (Cons m ms)
  from Cons.prems(1) obtain v where v: "float_str L (average_of m) = Inr v"
    and r: "parse_loop L ms (dict_set d0 (key_of m) v) = Inr d"
    by (auto simp: parse_loop_Cons split: if_splits sum.splits)
  from Cons.IH[OF r] show ?case by (simp add: dict_set_def update_keys)
qed

lemma float_str_digit_dot:
  "list_all digit_or_dot s \<Longrightarrow>
   float_str L s = (if valid_decimal s then Inr (float_of_rat L (decimal_value s)) else Inl ValueError)"
  by (simp add: float_str_def)

lemma parse_loop_total:
  assumes "\<forall>m \<in> set ms. length (groups m) = 3 \<and> list_all digit_or_dot (average_of m)"
  shows "((\<exists>d. parse_loop L ms d0 = Inr d) \<longleftrightarrow> (\<forall>m \<in> set ms. valid_decimal (average_of m)))
       \<and> (\<forall>e. parse_loop L ms d0 = Inl e \<longrightarrow> e = ValueError)"
  using assms
proof (induction ms arbitrary: d0)
  case Nil
  then show ?case by simp
next
  case (Cons m ms)
  then show ?case
    by (cases "valid_decimal (average_of m)") (simp_all add: parse_loop_Cons float_str_digit_dot)
qed

section \<open>Evaluation of closed instances\<close>

lemmas eval_defs = parse_results_def finditer_def regex_def py_def scan.simps word_char_def
  ascii_word_def is_digit_def digit_or_dot_def float_str_def valid_decimal_def decimal_value_def
  digits_val_def dict_set_def parse_loop.simps(2) key_of_def average_of_def

section \<open>When the extraction raises\<close>

text \<open>
  Claim C2, as amended. The third group of a match is always a nonempty string of digits and
  dots, but not every such string is a number. \<open>parse_results\<close> returns normally exactly when
  each match's third group has a digit and at most one dot; otherwise the float conversion
  raises, and \<^verbatim>\<open>ValueError\<close> is the only exception that leaves \<open>parse_results\<close>.
\<close>

theorem parse_results_raises_iff:
  "((\<exists>d. parse_results L output = Inr d) \<longleftrightarrow>
      (\<forall>m \<in> set (finditer (regex L) output). valid_decimal (average_of m)))
   \<and> (\<forall>e. parse_results L output = Inl e \<longrightarrow> e = ValueError)
   \<and> (\<forall>m \<in> set (finditer (regex L) output).
         average_of m \<noteq> [] \<and> list_all digit_or_dot (average_of m))"
proof -
  have g: "\<forall>m \<in> set (finditer (regex L) output).
             length (groups m) = 3 \<and> average_of m \<noteq> [] \<and> list_all digit_or_dot (average_of m)"
  proof
    fix m assume "m \<in> set (finditer (regex L) output)"
    from finditer_groups[OF this]
    show "length (groups m) = 3 \<and> average_of m \<noteq> [] \<and> list_all digit_or_dot (average_of m)"
      by (auto simp: average_of_def)
  qed
  then have g': "\<forall>m \<in> set (finditer (regex L) output).
             length (groups m) = 3 \<and> list_all digit_or_dot (average_of m)" by blast
  from parse_loop_total[OF g', of L "[]"] g show ?thesis
    unfolding parse_results_def by blast
qed

text \<open>The theorem at a text with one report, whose number is 12.5.\<close>

theorem parse_results_raises_iff_witness:
  "list_all (\<lambda>m. valid_decimal (average_of m))
     (finditer (regex plat0) (py ''Test Case '-[A.B c]' measured [Time, seconds] average: 12.5,''))
   \<and> (\<exists>d. parse_results plat0
        (py ''Test Case '-[A.B c]' measured [Time, seconds] average: 12.5,'') = Inr d)
   \<and> list_all (\<lambda>m. average_of m \<noteq> [] \<and> list_all digit_or_dot (average_of m))
     (finditer (regex plat0) (py ''Test Case '-[A.B c]' measured [Time, seconds] average: 12.5,''))"
proof -
  have h: "list_all (\<lambda>m. valid_decimal (average_of m))
     (finditer (regex plat0) (py ''Test Case '-[A.B c]' measured [Time, seconds] average: 12.5,''))"
    by (simp add: eval_defs)
  from parse_results_raises_iff[of plat0 "py ''Test Case '-[A.B c]' measured [Time, seconds] average: 12.5,''"] h
  show ?thesis by (simp add: list_all_iff)
qed

text \<open>
  Claim C2 as stated fails: \<^verbatim>\<open>1.2.3\<close> is matched by the third group and is not a number.
\<close>

theorem malformed_average_raises:
  "parse_results plat0 (py ''Test Case '-[A.B c]' measured [Time, seconds] average: 1.2.3,'')
   = Inl ValueError"
  by (simp add: eval_defs)

section \<open>Later matches overwrite earlier ones\<close>

text \<open>
  Claim C8, as amended. The matches come in the order of their places in the text, none
  overlapping the next. When the third group of every match is a number (a digit and at most
  one dot), \<open>parse_results\<close> returns a mapping, and when two of the matches have the same key
  and no match after the second has it, the mapping gives that key the float of the second
  one's number: the later occurrence has overwritten the earlier.
\<close>

theorem later_match_wins:
  assumes "\<forall>m \<in> set (finditer (regex L) output). valid_decimal (average_of m)"
    and "i < j" and "j < length (finditer (regex L) output)"
    and "key_of (finditer (regex L) output ! i) = key_of (finditer (regex L) output ! j)"
    and "\<forall>k. j < k \<and> k < length (finditer (regex L) output) \<longrightarrow>
           key_of (finditer (regex L) output ! k) \<noteq> key_of (finditer (regex L) output ! j)"
  shows "\<exists>d. parse_results L output = Inr d
       \<and> m_end (finditer (regex L) output ! i) \<le> m_start (finditer (regex L) output ! j)
       \<and> map_of d (key_of (finditer (regex L) output ! i))
           = Some (float_of_rat L (decimal_value (average_of (finditer (regex L) output ! j))))"
proof -
  let ?ms = "finditer (regex L) output"
  have g: "\<forall>m \<in> set ?ms. length (groups m) = 3 \<and> list_all digit_or_dot (average_of m)"
  proof
    fix m assume "m \<in> set ?ms"
    from finditer_groups[OF this] show "length (groups m) = 3 \<and> list_all digit_or_dot (average_of m)"
      by (auto simp: average_of_def)
  qed
  from parse_loop_total[OF g, of L "[]"] assms(1)
  obtain d where d: "parse_loop L ?ms [] = Inr d" by blast
  have "sorted_wrt (\<lambda>a b. m_end a \<le> m_start b) ?ms"
    unfolding finditer_def by (rule scan_sorted)
  with assms(2,3) have o: "m_end (?ms ! i) \<le> m_start (?ms ! j)"
    by (simp add: sorted_wrt_iff_nth_less)
  from assms(3) have mj: "?ms ! j \<in> set ?ms" by simp
  with g assms(1) have "float_str L (average_of (?ms ! j))
      = Inr (float_of_rat L (decimal_value (average_of (?ms ! j))))"
    by (simp add: float_str_digit_dot)
  with parse_loop_last_wins[OF d assms(3) assms(5)]
  have "map_option Inr (map_of d (key_of (?ms ! j)))
      = Some (Inr (float_of_rat L (decimal_value (average_of (?ms ! j)))) :: exn + 'a)"
    by simp
  then have "map_of d (key_of (?ms ! j))
      = Some (float_of_rat L (decimal_value (average_of (?ms ! j))))"
    by (cases "map_of d (key_of (?ms ! j))") simp_all
  with o d assms(4) show ?thesis by (simp add: parse_results_def)
qed

lemma two_reports_matches:
  "finditer (regex plat0) two_reports =
     [\<lparr>m_start = 0, m_end = 59, groups = [py ''C'', py ''t'', py ''0.5'']\<rparr>,
      \<lparr>m_start = 60, m_end = 120, groups = [py ''C'', py ''t'', py ''0.25'']\<rparr>]"
  by (simp add: two_reports_def eval_defs)

lemma plat0_float [simp]: "float_of_rat plat0 q = q"
  by (simp add: plat0_def)

lemma two_reports_result: "parse_results plat0 two_reports = Inr [(py ''C.t'', 1 / 4)]"
  by (simp add: parse_results_def two_reports_matches parse_loop.simps(2) float_str_def
      valid_decimal_def decimal_value_def digits_val_def digit_or_dot_def is_digit_def py_def
      dict_set_def)

lemma two_reports_bad_matches:
  "finditer (regex plat0) two_reports_bad =
     [\<lparr>m_start = 0, m_end = 59, groups = [py ''C'', py ''t'', py ''0.5'']\<rparr>,
      \<lparr>m_start = 60, m_end = 121, groups = [py ''C'', py ''t'', py ''1.2.3'']\<rparr>]"
  by (simp add: two_reports_bad_def eval_defs)

text \<open>
  The theorem at a text of two lines that report the test \<^verbatim>\<open>C.t\<close> with 0.5 and then 0.25.
\<close>

theorem later_match_wins_witness:
  "list_all (\<lambda>m. valid_decimal (average_of m)) (finditer (regex plat0) two_reports)
   \<and> parse_results plat0 two_reports = Inr [(py ''C.t'', 1 / 4)]
   \<and> m_end (finditer (regex plat0) two_reports ! 0) \<le> m_start (finditer (regex plat0) two_reports ! 1)
   \<and> map_of [(py ''C.t'', 1 / 4 :: rat)] (key_of (finditer (regex plat0) two_reports ! 0))
       = Some (float_of_rat plat0 (decimal_value (average_of (finditer (regex plat0) two_reports ! 1))))"
proof -
  have v: "list_all (\<lambda>m. valid_decimal (average_of m)) (finditer (regex plat0) two_reports)"
    by (simp add: two_reports_matches average_of_def valid_decimal_def is_digit_def py_def)
  then have h: "\<forall>m \<in> set (finditer (regex plat0) two_reports). valid_decimal (average_of m)"
    by (simp add: list_all_iff)
  have lt: "(0::nat) < 1" by simp
  have len: "(1::nat) < length (finditer (regex plat0) two_reports)"
    by (simp add: two_reports_matches)
  have same: "key_of (finditer (regex plat0) two_reports ! 0)
      = key_of (finditer (regex plat0) two_reports ! 1)"
    by (simp add: two_reports_matches key_of_def)
  have last: "\<forall>k. 1 < k \<and> k < length (finditer (regex plat0) two_reports) \<longrightarrow>
      key_of (finditer (regex plat0) two_reports ! k) \<noteq> key_of (finditer (regex plat0) two_reports ! 1)"
    by (simp add: two_reports_matches)
  from later_match_wins[OF h lt len same last] two_reports_result v
  show ?thesis by auto
qed

text \<open>
  Claim C8 as stated fails: in a text of two lines that report the test \<^verbatim>\<open>C.t\<close> with 0.5 and
  then with \<^verbatim>\<open>1.2.3\<close>, both lines match and have the same key, and \<open>parse_results\<close> raises
  instead of mapping the key to the later value.
\<close>

theorem later_malformed_raises:
  "map groups (finditer (regex plat0) two_reports_bad)
     = [[py ''C'', py ''t'', py ''0.5''], [py ''C'', py ''t'', py ''1.2.3'']]
   \<and> parse_results plat0 two_reports_bad = Inl ValueError"
  by (simp add: parse_results_def two_reports_bad_matches parse_loop.simps(2) float_str_def
      valid_decimal_def decimal_value_def digits_val_def digit_or_dot_def is_digit_def py_def
      dict_set_def)

section \<open>The revision lookup\<close>

lemma rev_dropWhile_takeWhile:
  "rev (dropWhile P (rev u)) @ rev (takeWhile P (rev u)) = u"
proof -
  have "rev (takeWhile P (rev u) @ dropWhile P (rev u)) = u" by simp
  then show ?thesis by (simp only: rev_append)
qed

lemma strip_decomp:
  "\<exists>l r. out = l @ strip out @ r \<and> list_all is_space l \<and> list_all is_space r"
proof -
  let ?u = "dropWhile is_space out"
  have 1: "out = takeWhile is_space out @ ?u" by simp
  have 2: "?u = strip out @ rev (takeWhile is_space (rev ?u))"
    unfolding strip_def by (rule rev_dropWhile_takeWhile[symmetric])
  have 3: "list_all is_space (takeWhile is_space out)"
    by (auto simp: list_all_iff dest: set_takeWhileD)
  have 4: "list_all is_space (rev (takeWhile is_space (rev ?u)))"
    by (auto simp: list_all_iff dest: set_takeWhileD)
  from 1 2 have "out = takeWhile is_space out @ strip out @ rev (takeWhile is_space (rev ?u))"
    by metis
  with 3 4 show ?thesis by blast
qed

lemma strip_ends:
  "strip out = [] \<or> (\<not> is_space (hd (strip out)) \<and> \<not> is_space (last (strip out)))"
proof (cases "strip out = []")
  case True
  then show ?thesis by simp
next
  case False
  let ?u = "dropWhile is_space out"
  let ?v = "dropWhile is_space (rev ?u)"
  from False have v: "?v \<noteq> []" by (simp add: strip_def)
  then have "\<not> is_space (hd ?v)" by (rule hd_dropWhile)
  with v have l: "\<not> is_space (last (strip out))" by (simp add: strip_def last_rev)
  have u: "?u \<noteq> []"
  proof
    assume "?u = []"
    then have "?v = dropWhile is_space (rev [])"
      by (rule arg_cong[where f = "\<lambda>x. dropWhile is_space (rev x)"])
    with v show False by simp
  qed
  then have hu: "\<not> is_space (hd ?u)" by (rule hd_dropWhile)
  have "?u = strip out @ rev (takeWhile is_space (rev ?u))"
    unfolding strip_def by (rule rev_dropWhile_takeWhile[symmetric])
  with False have "hd ?u = hd (strip out)" by (metis hd_append2)
  with hu l show ?thesis by simp
qed

text \<open>
  Claim C4. Whatever the lookup does, \<open>get_git_sha\<close> returns a string: \<^verbatim>\<open>unknown\<close> when the
  lookup raised, and otherwise the output stripped, which is the output without a run of
  white space at its start and one at its end, and which neither starts nor ends with white
  space.
\<close>

theorem get_git_sha_never_raises:
  "(\<exists>s. get_git_sha lookup = Inr s)
   \<and> get_git_sha (Inl e) = Inr (py ''unknown'')
   \<and> get_git_sha (Inr out) = Inr (strip out)
   \<and> (\<exists>l r. out = l @ strip out @ r \<and> list_all is_space l \<and> list_all is_space r)
   \<and> (strip out = [] \<or> (\<not> is_space (hd (strip out)) \<and> \<not> is_space (last (strip out))))"
  using strip_decomp[of out] strip_ends[of out]
  by (cases lookup) (simp_all add: get_git_sha_def)

section \<open>The report writer\<close>

lemma dict_update_map_of:
  "map_of (dict_update d other) k =
     (case map_of (rev other) k of Some v \<Rightarrow> Some v | None \<Rightarrow> map_of d k)"
proof (induction other arbitrary: d)
  case Nil
  then show ?case by (simp add: dict_update_def)
next
  case (Cons x other)
  obtain a b where x: "x = (a, b)" by (cases x)
  have "dict_update d (x # other) = dict_update (dict_set d a b) other"
    by (simp add: dict_update_def x)
  with Cons.IH[of "dict_set d a b"] show ?case
    by (auto simp: x dict_set_def update_conv' map_add_def split: option.splits)
qed

lemma dict_update_keys:
  "fst ` set (dict_update d other) = fst ` set d \<union> fst ` set other"
proof (induction other arbitrary: d)
  case Nil
  then show ?case by (simp add: dict_update_def)
next
  case (Cons x other)
  obtain a b where x: "x = (a, b)" by (cases x)
  have "dict_update d (x # other) = dict_update (dict_set d a b) other"
    by (simp add: dict_update_def x)
  moreover have "fst ` set (dict_set d a b) = insert a (fst ` set d)"
    by (simp add: dict_set_def dom_update[simplified dom_map_of_conv_image_fst])
  ultimately show ?case using Cons.IH[of "dict_set d a b"] by (auto simp: x)
qed

lemma header_dict_get:
  fixes dflt :: "'f pyval"
  assumes h: "h \<in> set hs"
  shows "dict_get (dict_update [] (zip hs (map PStr hs))) h dflt = PStr h"
proof -
  have eq: "rev (zip hs (map PStr hs)) = map (\<lambda>k. (k, PStr k :: 'f pyval)) (rev hs)"
    by (simp add: zip_map2 rev_map[symmetric] zip_same_conv_map)
  have "map_of (map (\<lambda>k. (k, PStr k :: 'f pyval)) (rev hs)) h = Some (PStr h)"
    using h by (simp add: map_of_map_restrict)
  then have "map_of (rev (zip hs (map PStr hs))) h = Some (PStr h :: 'f pyval)"
    by (simp only: eq)
  then show ?thesis by (simp add: dict_get_def dict_update_map_of)
qed

lemma writeheader_eq:
  "writeheader (L :: 'f platform) headers files path = (None, fwrite files path (csv_record headers))"
proof -
  let ?hd = "dict_update [] (zip headers (map PStr headers)) :: (str \<times> 'f pyval) list"
  have k: "fst ` set ?hd = set headers"
    by (simp add: dict_update_keys) (metis length_map map_fst_zip set_map)
  then have 1: "\<not> list_ex (\<lambda>k. k \<notin> set headers) (map fst ?hd)"
    by (auto simp: list_ex_iff)
  have 2: "map (\<lambda>key. dict_get ?hd key (PStr [])) headers = map PStr headers"
    by (rule map_cong) (simp_all add: header_dict_get)
  have "dict_to_list headers ?hd = Inr (map PStr headers)"
    by (simp only: dict_to_list_def 1 2 if_False)
  then show ?thesis
    by (simp add: writeheader_def writerow_def field_str_def comp_def)
qed

lemma with_file_twice [simp]: "with_file (with_file d path a) path b = with_file d path b"
  by (simp add: with_file_def)

lemma reading_with_file [simp]:
  "reading (with_file d path a) q = (if q = path then Inr a else reading d q)"
  by (simp add: with_file_def)

lemma appending_with_file [simp]: "appending (with_file d path a) = appending d"
  by (simp add: with_file_def)

lemma write_csv_row_read_fault:
  "reading files csvfile = Inl e \<Longrightarrow> e \<noteq> FileNotFoundError \<Longrightarrow>
   write_csv_row L files csvfile row headers = (Some e, files)"
  by (simp add: write_csv_row_def)

lemma write_csv_row_append_fault:
  "appending files csvfile = Some e \<Longrightarrow> \<forall>e'. reading files csvfile = Inl e' \<longrightarrow> e' = FileNotFoundError \<Longrightarrow>
   write_csv_row L files csvfile row headers = (Some e, files)"
  by (cases "reading files csvfile") (simp_all add: write_csv_row_def open_append_def)

lemma write_csv_row_new:
  "reading files csvfile = Inl FileNotFoundError \<Longrightarrow> appending files csvfile = None \<Longrightarrow>
   write_csv_row L files csvfile row headers =
     (if list_ex (\<lambda>k. k \<notin> set headers) (map fst row)
      then (Some ValueError, with_file files csvfile (csv_record headers))
      else (None, with_file files csvfile
              (csv_record headers
               @ csv_record (map (\<lambda>h. field_str L (dict_get row h (PStr []))) headers))))"
  by (simp add: write_csv_row_def open_append_def writeheader_eq writerow_def dict_to_list_def
      fwrite_def comp_def)

lemma write_csv_row_old:
  "reading files csvfile = Inr old \<Longrightarrow> appending files csvfile = None \<Longrightarrow>
   write_csv_row L files csvfile row headers =
     (if list_ex (\<lambda>k. k \<notin> set headers) (map fst row)
      then (Some ValueError, files)
      else (None, with_file files csvfile
              (old @ csv_record (map (\<lambda>h. field_str L (dict_get row h (PStr []))) headers))))"
  by (simp add: write_csv_row_def open_append_def writerow_def dict_to_list_def
      fwrite_def comp_def)

lemma on_disk_reading [simp]:
  "reading (on_disk m) path = (case m path of Some data \<Rightarrow> Inr data | None \<Rightarrow> Inl FileNotFoundError)"
  by (simp add: on_disk_def)

lemma on_disk_appending [simp]: "appending (on_disk m) path = None"
  by (simp add: on_disk_def)

lemma with_file_on_disk [simp]: "with_file (on_disk m) path data = on_disk (m(path \<mapsto> data))"
  by (auto simp: with_file_def on_disk_def)

lemma cells_of_missing:
  fixes row :: "(str \<times> 'f pyval) list"
  shows "\<forall>i < length headers. headers ! i \<notin> fst ` set row \<longrightarrow>
           map (\<lambda>h. field_str L (dict_get row h (PStr []))) headers ! i = []"
proof (intro allI impI)
  fix i assume "i < length headers" and "headers ! i \<notin> fst ` set row"
  then have "map_of row (headers ! i) = None" by (simp add: map_of_eq_None_iff)
  with \<open>i < length headers\<close>
  show "map (\<lambda>h. field_str L (dict_get row h (PStr []))) headers ! i = []"
    by (simp add: dict_get_def field_str_def)
qed

text \<open>
  Claim C5, as amended. Let every key of the row be in the header list. On a path with no file
  that can be opened for appending, \<open>write_csv_row\<close> returns normally and the file then holds
  the header record followed by exactly one record, the row's cells in the order of the
  headers. On a path with a file that can be opened for appending, it returns normally and the
  file holds what it held before followed by that one record, with no header. So the header is
  written exactly when there was no file, earlier contents stay as a prefix, and no other path
  changes. When the read-open raises anything but \<^verbatim>\<open>FileNotFoundError\<close>, or the append-open
  raises, that exception leaves \<open>write_csv_row\<close> and the file system is as it was: no file
  has been made.
\<close>

theorem write_csv_row_header_once:
  assumes "set (map fst row) \<subseteq> set headers"
  shows "(reading files csvfile = Inl FileNotFoundError \<and> appending files csvfile = None \<longrightarrow>
            write_csv_row L files csvfile row headers =
              (None, with_file files csvfile
                 (csv_record headers
                  @ csv_record (map (\<lambda>h. field_str L (dict_get row h (PStr []))) headers))))
       \<and> (\<forall>old. reading files csvfile = Inr old \<and> appending files csvfile = None \<longrightarrow>
            write_csv_row L files csvfile row headers =
              (None, with_file files csvfile
                 (old @ csv_record (map (\<lambda>h. field_str L (dict_get row h (PStr []))) headers))))
       \<and> (\<forall>e. reading files csvfile = Inl e \<and> e \<noteq> FileNotFoundError \<longrightarrow>
            write_csv_row L files csvfile row headers = (Some e, files))
       \<and> (\<forall>e. appending files csvfile = Some e
              \<and> (\<forall>e'. reading files csvfile = Inl e' \<longrightarrow> e' = FileNotFoundError) \<longrightarrow>
            write_csv_row L files csvfile row headers = (Some e, files))"
proof -
  from assms have n: "\<not> list_ex (\<lambda>k. k \<notin> set headers) (map fst row)"
    by (auto simp: list_ex_iff)
  have 1: "reading files csvfile = Inl FileNotFoundError \<and> appending files csvfile = None \<longrightarrow>
            write_csv_row L files csvfile row headers =
              (None, with_file files csvfile
                 (csv_record headers
                  @ csv_record (map (\<lambda>h. field_str L (dict_get row h (PStr []))) headers)))"
    using n by (simp add: write_csv_row_new)
  have 2: "\<forall>old. reading files csvfile = Inr old \<and> appending files csvfile = None \<longrightarrow>
            write_csv_row L files csvfile row headers =
              (None, with_file files csvfile
                 (old @ csv_record (map (\<lambda>h. field_str L (dict_get row h (PStr []))) headers)))"
    using n by (simp add: write_csv_row_old)
  have 3: "\<forall>e. reading files csvfile = Inl e \<and> e \<noteq> FileNotFoundError \<longrightarrow>
            write_csv_row L files csvfile row headers = (Some e, files)"
    by (simp add: write_csv_row_read_fault)
  have 4: "\<forall>e. appending files csvfile = Some e
              \<and> (\<forall>e'. reading files csvfile = Inl e' \<longrightarrow> e' = FileNotFoundError) \<longrightarrow>
            write_csv_row L files csvfile row headers = (Some e, files)"
    by (simp add: write_csv_row_append_fault)
  from 1 2 3 4 show ?thesis by (intro conjI)
qed

text \<open>
  The theorem at a first write to a path with no file, at a second write to the file so made,
  at a path that is a directory, and at a path in a directory that does not exist.
\<close>

theorem write_csv_row_header_once_witness:
  "write_csv_row plat0 (on_disk Map.empty) (py ''perf_results.csv'')
      [(py ''date'', PStr (py ''d'')), (py ''git_sha'', PStr (py ''unknown''))]
      [py ''date'', py ''git_sha'']
   = (None, on_disk [py ''perf_results.csv'' \<mapsto> py ''date,git_sha'' @ [13, 10] @ py ''d,unknown'' @ [13, 10]])
   \<and> write_csv_row plat0
      (on_disk [py ''perf_results.csv'' \<mapsto> py ''date,git_sha'' @ [13, 10] @ py ''d,unknown'' @ [13, 10]])
      (py ''perf_results.csv'')
      [(py ''date'', PStr (py ''e'')), (py ''git_sha'', PStr (py ''unknown''))]
      [py ''date'', py ''git_sha'']
   = (None, on_disk [py ''perf_results.csv'' \<mapsto> py ''date,git_sha'' @ [13, 10] @ py ''d,unknown'' @ [13, 10]
        @ py ''e,unknown'' @ [13, 10]])
   \<and> write_csv_row plat0 disk_with_dir (py ''build'')
      [(py ''date'', PStr (py ''d'')), (py ''git_sha'', PStr (py ''unknown''))]
      [py ''date'', py ''git_sha'']
   = (Some IsADirectoryError, disk_with_dir)
   \<and> write_csv_row plat0 disk_no_dir (py ''nodir/f.csv'')
      [(py ''date'', PStr (py ''d'')), (py ''git_sha'', PStr (py ''unknown''))]
      [py ''date'', py ''git_sha'']
   = (Some FileNotFoundError, disk_no_dir)"
proof -
  have s: "set (map fst [(py ''date'', PStr (py ''d'') :: rat pyval), (py ''git_sha'', PStr (py ''unknown''))])
      \<subseteq> set [py ''date'', py ''git_sha'']"
    "set (map fst [(py ''date'', PStr (py ''e'') :: rat pyval), (py ''git_sha'', PStr (py ''unknown''))])
      \<subseteq> set [py ''date'', py ''git_sha'']"
    by simp_all
  have a: "write_csv_row plat0 (on_disk Map.empty) (py ''perf_results.csv'')
      [(py ''date'', PStr (py ''d'')), (py ''git_sha'', PStr (py ''unknown''))]
      [py ''date'', py ''git_sha'']
   = (None, on_disk [py ''perf_results.csv'' \<mapsto> py ''date,git_sha'' @ [13, 10] @ py ''d,unknown'' @ [13, 10]])"
    using write_csv_row_header_once[OF s(1), of "on_disk Map.empty" "py ''perf_results.csv''" plat0]
    by (simp add: csv_record_def quote_field_def needs_quote_def field_str_def dict_get_def py_def)
  have b: "write_csv_row plat0
      (on_disk [py ''perf_results.csv'' \<mapsto> py ''date,git_sha'' @ [13, 10] @ py ''d,unknown'' @ [13, 10]])
      (py ''perf_results.csv'')
      [(py ''date'', PStr (py ''e'')), (py ''git_sha'', PStr (py ''unknown''))]
      [py ''date'', py ''git_sha'']
   = (None, on_disk [py ''perf_results.csv'' \<mapsto> py ''date,git_sha'' @ [13, 10] @ py ''d,unknown'' @ [13, 10]
        @ py ''e,unknown'' @ [13, 10]])"
    using write_csv_row_header_once[OF s(2),
        of "on_disk [py ''perf_results.csv'' \<mapsto> py ''date,git_sha'' @ [13, 10] @ py ''d,unknown'' @ [13, 10]]"
        "py ''perf_results.csv''" plat0]
    by (simp add: csv_record_def quote_field_def needs_quote_def field_str_def dict_get_def py_def)
  have c: "write_csv_row plat0 disk_with_dir (py ''build'')
      [(py ''date'', PStr (py ''d'')), (py ''git_sha'', PStr (py ''unknown''))]
      [py ''date'', py ''git_sha'']
   = (Some IsADirectoryError, disk_with_dir)"
    using write_csv_row_header_once[OF s(1), of disk_with_dir "py ''build''" plat0]
    by (simp add: disk_with_dir_def)
  have d: "write_csv_row plat0 disk_no_dir (py ''nodir/f.csv'')
      [(py ''date'', PStr (py ''d'')), (py ''git_sha'', PStr (py ''unknown''))]
      [py ''date'', py ''git_sha'']
   = (Some FileNotFoundError, disk_no_dir)"
    using write_csv_row_header_once[OF s(1), of disk_no_dir "py ''nodir/f.csv''" plat0]
    by (simp add: disk_no_dir_def)
  from a b c d show ?thesis by (intro conjI)
qed

text \<open>
  Claim C5 as stated fails: on a path with no file and a row that has a key outside the
  headers, the file is created with the header record and no data record, and the call raises.
\<close>

theorem header_without_data_row:
  "write_csv_row plat0 (on_disk Map.empty) (py ''perf_results.csv'')
      [(py ''date'', PStr (py ''d'')), (py ''extra'', PFloat 1)] [py ''date'']
   = (Some ValueError, on_disk [py ''perf_results.csv'' \<mapsto> py ''date'' @ [13, 10]])"
  by (simp add: write_csv_row_new csv_record_def quote_field_def needs_quote_def py_def)

text \<open>
  Claim C3, as amended. A row key that is not in the header list is not dropped: when the path
  can be opened, the writer raises \<^verbatim>\<open>ValueError\<close> before it writes the record, so the file has
  the header record if it was new and the file system is unchanged otherwise. When all the
  row's keys are in the header list and the path can be opened, the call succeeds, the record
  has one cell per header, and the cell of a header that is no key of the row is empty. When
  the read-open raises anything but \<^verbatim>\<open>FileNotFoundError\<close>, or the append-open raises, that
  exception leaves \<open>write_csv_row\<close> whatever the row, and the file system is as it was.
\<close>

theorem extra_key_raises:
  "(list_ex (\<lambda>k. k \<notin> set headers) (map fst row) \<and> appending files csvfile = None \<longrightarrow>
      (reading files csvfile = Inl FileNotFoundError \<longrightarrow>
         write_csv_row L files csvfile row headers =
           (Some ValueError, with_file files csvfile (csv_record headers)))
      \<and> (\<forall>old. reading files csvfile = Inr old \<longrightarrow>
         write_csv_row L files csvfile row headers = (Some ValueError, files)))
   \<and> (\<not> list_ex (\<lambda>k. k \<notin> set headers) (map fst row) \<and> appending files csvfile = None \<longrightarrow>
      (\<forall>before. (reading files csvfile = Inl FileNotFoundError \<and> before = csv_record headers)
                 \<or> reading files csvfile = Inr before \<longrightarrow>
         (\<exists>cells. write_csv_row L files csvfile row headers =
                     (None, with_file files csvfile (before @ csv_record cells))
            \<and> length cells = length headers
            \<and> (\<forall>i < length headers. headers ! i \<notin> fst ` set row \<longrightarrow> cells ! i = []))))
   \<and> (\<forall>e. reading files csvfile = Inl e \<and> e \<noteq> FileNotFoundError \<longrightarrow>
        write_csv_row L files csvfile row headers = (Some e, files))
   \<and> (\<forall>e. appending files csvfile = Some e
          \<and> (\<forall>e'. reading files csvfile = Inl e' \<longrightarrow> e' = FileNotFoundError) \<longrightarrow>
        write_csv_row L files csvfile row headers = (Some e, files))"
proof -
  let ?cells = "map (\<lambda>h. field_str L (dict_get row h (PStr []))) headers"
  have 1: "list_ex (\<lambda>k. k \<notin> set headers) (map fst row) \<and> appending files csvfile = None \<longrightarrow>
      (reading files csvfile = Inl FileNotFoundError \<longrightarrow>
         write_csv_row L files csvfile row headers =
           (Some ValueError, with_file files csvfile (csv_record headers)))
      \<and> (\<forall>old. reading files csvfile = Inr old \<longrightarrow>
         write_csv_row L files csvfile row headers = (Some ValueError, files))"
    by (simp add: write_csv_row_new write_csv_row_old)
  have 2: "\<not> list_ex (\<lambda>k. k \<notin> set headers) (map fst row) \<and> appending files csvfile = None \<longrightarrow>
      (\<forall>before. (reading files csvfile = Inl FileNotFoundError \<and> before = csv_record headers)
                 \<or> reading files csvfile = Inr before \<longrightarrow>
         (\<exists>cells. write_csv_row L files csvfile row headers =
                     (None, with_file files csvfile (before @ csv_record cells))
            \<and> length cells = length headers
            \<and> (\<forall>i < length headers. headers ! i \<notin> fst ` set row \<longrightarrow> cells ! i = [])))"
  proof (intro impI allI)
    fix before
    assume n: "\<not> list_ex (\<lambda>k. k \<notin> set headers) (map fst row) \<and> appending files csvfile = None"
      and r: "(reading files csvfile = Inl FileNotFoundError \<and> before = csv_record headers)
                 \<or> reading files csvfile = Inr before"
    from n r have "write_csv_row L files csvfile row headers =
        (None, with_file files csvfile (before @ csv_record ?cells))"
      by (auto simp: write_csv_row_new write_csv_row_old)
    moreover have "length ?cells = length headers" by simp
    moreover note cells_of_missing[of headers row L]
    ultimately show "\<exists>cells. write_csv_row L files csvfile row headers =
                     (None, with_file files csvfile (before @ csv_record cells))
            \<and> length cells = length headers
            \<and> (\<forall>i < length headers. headers ! i \<notin> fst ` set row \<longrightarrow> cells ! i = [])"
      by blast
  qed
  have 3: "\<forall>e. reading files csvfile = Inl e \<and> e \<noteq> FileNotFoundError \<longrightarrow>
        write_csv_row L files csvfile row headers = (Some e, files)"
    by (simp add: write_csv_row_read_fault)
  have 4: "\<forall>e. appending files csvfile = Some e
          \<and> (\<forall>e'. reading files csvfile = Inl e' \<longrightarrow> e' = FileNotFoundError) \<longrightarrow>
        write_csv_row L files csvfile row headers = (Some e, files)"
    by (simp add: write_csv_row_append_fault)
  from 1 2 3 4 show ?thesis by (intro conjI)
qed

text \<open>
  The theorem at a row with a key outside the headers, written to a file that exists and to a
  path with no file; at a row that lacks the header \<^verbatim>\<open>b\<close>; at a path in a directory that does
  not exist; and at a path that is a directory.
\<close>

theorem extra_key_raises_witness:
  "write_csv_row plat0 (on_disk [py ''f'' \<mapsto> py ''a'' @ [13, 10]]) (py ''f'')
      [(py ''a'', PStr (py ''x'')), (py ''extra'', PFloat 1)] [py ''a'']
   = (Some ValueError, on_disk [py ''f'' \<mapsto> py ''a'' @ [13, 10]])
   \<and> (\<exists>cells. write_csv_row plat0 (on_disk [py ''f'' \<mapsto> py ''a,b'' @ [13, 10]]) (py ''f'')
          [(py ''a'', PStr (py ''x''))] [py ''a'', py ''b'']
        = (None, on_disk [py ''f'' \<mapsto> py ''a,b'' @ [13, 10] @ csv_record cells])
        \<and> length cells = 2 \<and> cells ! 1 = [])
   \<and> write_csv_row plat0 disk_no_dir (py ''nodir/f.csv'')
        [(py ''a'', PStr (py ''x'')), (py ''extra'', PFloat 1)] [py ''a'']
      = (Some FileNotFoundError, disk_no_dir)
   \<and> write_csv_row plat0 (on_disk Map.empty) (py ''f'')
        [(py ''a'', PStr (py ''x'')), (py ''extra'', PFloat 1)] [py ''a'']
      = (Some ValueError, on_disk [py ''f'' \<mapsto> py ''a'' @ [13, 10]])
   \<and> write_csv_row plat0 disk_with_dir (py ''build'')
        [(py ''a'', PStr (py ''x'')), (py ''extra'', PFloat 1)] [py ''a'']
      = (Some IsADirectoryError, disk_with_dir)"
proof -
  have 1: "list_ex (\<lambda>k. k \<notin> set [py ''a''])
      (map fst [(py ''a'', PStr (py ''x'') :: rat pyval), (py ''extra'', PFloat 1)])"
    by (simp add: py_def)
  have 2: "\<not> list_ex (\<lambda>k. k \<notin> set [py ''a'', py ''b''])
      (map fst [(py ''a'', PStr (py ''x'') :: rat pyval)])"
    by simp
  have 3: "[py ''a'', py ''b''] ! 1 \<notin> fst ` set [(py ''a'', PStr (py ''x'') :: rat pyval)]"
    by (simp add: py_def)
  from extra_key_raises[of "[py ''a'']" "[(py ''a'', PStr (py ''x'')), (py ''extra'', PFloat 1)]"
      "on_disk [py ''f'' \<mapsto> py ''a'' @ [13, 10]]" "py ''f''" plat0] 1
  have a: "write_csv_row plat0 (on_disk [py ''f'' \<mapsto> py ''a'' @ [13, 10]]) (py ''f'')
      [(py ''a'', PStr (py ''x'')), (py ''extra'', PFloat 1)] [py ''a'']
   = (Some ValueError, on_disk [py ''f'' \<mapsto> py ''a'' @ [13, 10]])"
    by simp
  from extra_key_raises[of "[py ''a'', py ''b'']" "[(py ''a'', PStr (py ''x''))]"
      "on_disk [py ''f'' \<mapsto> py ''a,b'' @ [13, 10]]" "py ''f''" plat0] 2 3
  have b: "\<exists>cells. write_csv_row plat0 (on_disk [py ''f'' \<mapsto> py ''a,b'' @ [13, 10]]) (py ''f'')
          [(py ''a'', PStr (py ''x''))] [py ''a'', py ''b'']
        = (None, on_disk [py ''f'' \<mapsto> py ''a,b'' @ [13, 10] @ csv_record cells])
        \<and> length cells = 2 \<and> cells ! 1 = []"
    by auto
  from extra_key_raises[of "[py ''a'']" "[(py ''a'', PStr (py ''x'')), (py ''extra'', PFloat 1)]"
      disk_no_dir "py ''nodir/f.csv''" plat0]
  have c: "write_csv_row plat0 disk_no_dir (py ''nodir/f.csv'')
        [(py ''a'', PStr (py ''x'')), (py ''extra'', PFloat 1)] [py ''a'']
      = (Some FileNotFoundError, disk_no_dir)"
    by (simp add: disk_no_dir_def)
  have h: "csv_record [py ''a''] = py ''a'' @ [13, 10]"
    by (simp add: csv_record_def quote_field_def needs_quote_def py_def)
  from extra_key_raises[of "[py ''a'']" "[(py ''a'', PStr (py ''x'')), (py ''extra'', PFloat 1)]"
      "on_disk Map.empty" "py ''f''" plat0, THEN conjunct1] 1
  have "write_csv_row plat0 (on_disk Map.empty) (py ''f'')
        [(py ''a'', PStr (py ''x'')), (py ''extra'', PFloat 1)] [py ''a'']
      = (Some ValueError, with_file (on_disk Map.empty) (py ''f'') (csv_record [py ''a'']))"
    by simp
  then have d: "write_csv_row plat0 (on_disk Map.empty) (py ''f'')
        [(py ''a'', PStr (py ''x'')), (py ''extra'', PFloat 1)] [py ''a'']
      = (Some ValueError, on_disk [py ''f'' \<mapsto> py ''a'' @ [13, 10]])"
    by (simp only: h with_file_on_disk)
  from extra_key_raises[of "[py ''a'']" "[(py ''a'', PStr (py ''x'')), (py ''extra'', PFloat 1)]"
      disk_with_dir "py ''build''" plat0]
  have e: "write_csv_row plat0 disk_with_dir (py ''build'')
        [(py ''a'', PStr (py ''x'')), (py ''extra'', PFloat 1)] [py ''a'']
      = (Some IsADirectoryError, disk_with_dir)"
    by (simp add: disk_with_dir_def)
  from a b c d e show ?thesis by (intro conjI)
qed

text \<open>
  Claim C3 as stated fails: the call with the extra key \<^verbatim>\<open>extra\<close> does not succeed.
\<close>

theorem extra_key_not_dropped:
  "write_csv_row plat0 (on_disk [py ''f'' \<mapsto> py ''a'' @ [13, 10]]) (py ''f'')
      [(py ''a'', PStr (py ''x'')), (py ''extra'', PFloat 1)] [py ''a'']
   = (Some ValueError, on_disk [py ''f'' \<mapsto> py ''a'' @ [13, 10]])"
  by (simp add: write_csv_row_old py_def)

section \<open>The assembled row\<close>

lemma set_first_seen [simp]: "set (first_seen xs) = set xs"
  by (induction xs) auto

lemma distinct_first_seen [simp]: "distinct (first_seen xs)"
  by (induction xs) auto

lemma first_seen_filter: "filter Q (first_seen xs) = first_seen (filter Q xs)"
proof (induction xs)
  case Nil
  then show ?case by simp
next
  case (Cons x xs)
  show ?case
  proof (cases "Q x")
    case True
    have "filter Q (filter (\<lambda>y. y \<noteq> x) (first_seen xs)) = filter (\<lambda>y. y \<noteq> x) (filter Q (first_seen xs))"
      by (simp add: conj_commute)
    with True Cons show ?thesis by simp
  next
    case False
    have "filter Q (filter (\<lambda>y. y \<noteq> x) (first_seen xs)) = filter (\<lambda>y. y \<noteq> x) (filter Q (first_seen xs))"
      by (simp add: conj_commute)
    also have "\<dots> = filter (\<lambda>y. y \<noteq> x) (first_seen (filter Q xs))" by (simp add: Cons)
    also have "\<dots> = first_seen (filter Q xs)"
      using False by (intro filter_True) auto
    finally show ?thesis using False by simp
  qed
qed

lemma first_seen_distinct: "distinct xs \<Longrightarrow> first_seen xs = xs"
proof (induction xs)
  case Nil
  then show ?case by simp
next
  case (Cons x xs)
  then have "filter (\<lambda>y. y \<noteq> x) xs = xs" by (intro filter_True) auto
  with Cons show ?case by simp
qed

lemma fold_first_seen:
  "fold (\<lambda>k acc. if k \<in> set acc then acc else acc @ [k]) ks acc =
     acc @ first_seen (filter (\<lambda>k. k \<notin> set acc) ks)"
proof (induction ks arbitrary: acc)
  case Nil
  then show ?case by simp
next
  case (Cons k ks)
  show ?case
  proof (cases "k \<in> set acc")
    case True
    with Cons[of acc] show ?thesis by simp
  next
    case False
    have "filter (\<lambda>y. y \<noteq> k) (first_seen (filter (\<lambda>k. k \<notin> set acc) ks))
        = first_seen (filter (\<lambda>y. y \<noteq> k) (filter (\<lambda>k. k \<notin> set acc) ks))"
      by (rule first_seen_filter)
    also have "filter (\<lambda>y. y \<noteq> k) (filter (\<lambda>k. k \<notin> set acc) ks)
        = filter (\<lambda>x. x \<notin> set (acc @ [k])) ks"
      by (auto intro: filter_cong)
    finally show ?thesis using False Cons[of "acc @ [k]"] by simp
  qed
qed

lemma parse_results_keys:
  assumes "parse_results L out = Inr d"
  shows "map fst d = first_seen (map key_of (finditer (regex L) out))"
proof -
  from assms have "parse_loop L (finditer (regex L) out) [] = Inr d"
    by (simp add: parse_results_def)
  from parse_loop_keys[OF this] show ?thesis by (simp add: fold_first_seen)
qed

lemma word_char_not_dot: "\<not> word_char L 46"
  by (simp add: word_char_def ascii_word_def is_digit_def)

lemma key_shape:
  assumes "m \<in> set (finditer (regex L) out)"
  shows "\<exists>a b. key_of m = a @ py ''.'' @ b \<and> a \<noteq> [] \<and> b \<noteq> []
           \<and> list_all (word_char L) a \<and> list_all (word_char L) b"
proof -
  from finditer_groups[OF assms] obtain a b c where "groups m = [a, b, c]"
    "a \<noteq> []" "list_all (word_char L) a" "b \<noteq> []" "list_all (word_char L) b" by blast
  then show ?thesis by (intro exI[of _ a] exI[of _ b]) (simp add: key_of_def)
qed

lemma dotted_not_fixed:
  "k = a @ py ''.'' @ b \<Longrightarrow> k \<noteq> py ''date'' \<and> k \<noteq> py ''git_sha''"
proof -
  assume k: "k = a @ py ''.'' @ b"
  then have "46 \<in> set k" by (simp add: py_def)
  moreover have "46 \<notin> set (py ''date'')" "46 \<notin> set (py ''git_sha'')" by (simp_all add: py_def)
  ultimately show ?thesis by auto
qed

lemma parse_results_key_shape:
  assumes "parse_results L out = Inr d" and "k \<in> fst ` set d"
  shows "(\<exists>a b. k = a @ py ''.'' @ b \<and> a \<noteq> [] \<and> b \<noteq> []
           \<and> list_all (word_char L) a \<and> list_all (word_char L) b)
       \<and> k \<noteq> py ''date'' \<and> k \<noteq> py ''git_sha''"
proof -
  from assms(2) have "k \<in> set (map fst d)" by simp
  with parse_results_keys[OF assms(1)] obtain m where "m \<in> set (finditer (regex L) out)"
    "k = key_of m" by auto
  with key_shape[of m L out] dotted_not_fixed[of k] show ?thesis by metis
qed

lemma dict_update_key_list:
  "map fst (dict_update d other) =
     fold (\<lambda>k acc. if k \<in> set acc then acc else acc @ [k]) (map fst other) (map fst d)"
proof (induction other arbitrary: d)
  case Nil
  then show ?case by (simp add: dict_update_def)
next
  case (Cons x other)
  obtain a b where x: "x = (a, b)" by (cases x)
  have "dict_update d (x # other) = dict_update (dict_set d a b) other"
    by (simp add: dict_update_def x)
  with Cons[of "dict_set d a b"] show ?case
    by (simp add: x dict_set_def update_keys)
qed

lemma report_Inr:
  assumes "report L w = Inr (row, headers)"
  shows "\<exists>out results sha. run_tests w = Inr out \<and> parse_results L out = Inr results
           \<and> get_git_sha (git w) = Inr sha
           \<and> row = dict_update [(py ''date'', PStr (clock w)), (py ''git_sha'', PStr sha)]
                     (map (\<lambda>(k, v). (k, PFloat v)) results)
           \<and> headers = [py ''date'', py ''git_sha''] @ map fst results"
  using assms by (auto simp: report_def split: sum.splits)

lemma map_fst_PFloat: "map fst (map (\<lambda>(k, v). (k, PFloat v)) results) = map fst results"
  by (induction results) auto

lemma row_keys:
  fixes results :: "(str \<times> 'f) list"
  assumes "parse_results L out = Inr results"
  shows "map fst (dict_update [(py ''date'', PStr now), (py ''git_sha'', PStr sha)]
                     (map (\<lambda>(k, v). (k, PFloat v)) results))
         = [py ''date'', py ''git_sha''] @ map fst results"
proof -
  let ?d = "[(py ''date'', PStr now), (py ''git_sha'', PStr sha)] :: (str \<times> 'f pyval) list"
  have d: "distinct (map fst results)"
    using parse_results_keys[OF assms] by simp
  have n: "\<forall>k \<in> set (map fst results). k \<notin> set [py ''date'', py ''git_sha'']"
    using parse_results_key_shape[OF assms] by auto
  then have f: "filter (\<lambda>k. k \<notin> set (map fst ?d)) (map fst results) = map fst results"
    by (intro filter_True) auto
  have "map fst (dict_update ?d (map (\<lambda>(k, v). (k, PFloat v)) results))
      = fold (\<lambda>k acc. if k \<in> set acc then acc else acc @ [k])
          (map fst (map (\<lambda>(k, v). (k, PFloat v :: 'f pyval)) results)) (map fst ?d)"
    by (rule dict_update_key_list)
  also have "\<dots> = fold (\<lambda>k acc. if k \<in> set acc then acc else acc @ [k])
          (map fst results) (map fst ?d)"
    by (simp only: map_fst_PFloat)
  also have "\<dots> = map fst ?d @ first_seen (filter (\<lambda>k. k \<notin> set (map fst ?d)) (map fst results))"
    by (rule fold_first_seen)
  also have "\<dots> = map fst ?d @ map fst results"
    by (simp only: f first_seen_distinct[OF d])
  finally show ?thesis by simp
qed

lemma row_fixed_values:
  assumes "parse_results L out = Inr results"
  shows "map_of (dict_update [(py ''date'', PStr now), (py ''git_sha'', PStr sha)]
                     (map (\<lambda>(k, v). (k, PFloat v)) results)) (py ''date'') = Some (PStr now)"
    and "map_of (dict_update [(py ''date'', PStr now), (py ''git_sha'', PStr sha)]
                     (map (\<lambda>(k, v). (k, PFloat v)) results)) (py ''git_sha'') = Some (PStr sha)"
proof -
  let ?other = "map (\<lambda>(k, v). (k, PFloat v :: 'a pyval)) results"
  have n: "py ''date'' \<notin> fst ` set ?other" "py ''git_sha'' \<notin> fst ` set ?other"
    using parse_results_key_shape[OF assms] map_fst_PFloat[of results]
    by (metis (no_types, lifting) list.set_map)+
  then have "map_of (rev ?other) (py ''date'') = None" "map_of (rev ?other) (py ''git_sha'') = None"
    by (simp_all add: map_of_eq_None_iff)
  moreover have "py ''date'' \<noteq> py ''git_sha''" by (simp add: py_def)
  ultimately show
    "map_of (dict_update [(py ''date'', PStr now), (py ''git_sha'', PStr sha)] ?other) (py ''date'')
       = Some (PStr now)"
    "map_of (dict_update [(py ''date'', PStr now), (py ''git_sha'', PStr sha)] ?other) (py ''git_sha'')
       = Some (PStr sha)"
    by (simp_all add: dict_update_map_of)
qed

text \<open>
  Claim C6. Whenever \<open>main\<close> gets as far as assembling a row, the row has the keys \<^verbatim>\<open>date\<close>
  and \<^verbatim>\<open>git_sha\<close>, and the header list is these two followed by the keys of the matches found
  in the captured text, each at its first occurrence. The row's own keys are in the same
  order, and these are the row and the header list that \<open>main\<close> hands to \<open>write_csv_row\<close>.
\<close>

theorem report_row_and_headers:
  assumes "report L w = Inr (row, headers)"
  shows "(\<exists>out. run_tests w = Inr out
            \<and> headers = [py ''date'', py ''git_sha'']
                @ first_seen (map key_of (finditer (regex L) out)))
       \<and> py ''date'' \<in> fst ` set row \<and> py ''git_sha'' \<in> fst ` set row
       \<and> map fst row = headers
       \<and> main L w =
           (case write_csv_row L (disk w) (py ''perf_results.csv'') row headers of
              (Some e, files') \<Rightarrow> \<lparr>raised = Some e, files_after = files', printed = []\<rparr>
            | (None, files') \<Rightarrow> \<lparr>raised = None, files_after = files', printed = [row]\<rparr>)"
proof -
  from report_Inr[OF assms] obtain out results sha where r: "run_tests w = Inr out"
    "parse_results L out = Inr results" "get_git_sha (git w) = Inr sha"
    "row = dict_update [(py ''date'', PStr (clock w)), (py ''git_sha'', PStr sha)]
                     (map (\<lambda>(k, v). (k, PFloat v)) results)"
    "headers = [py ''date'', py ''git_sha''] @ map fst results" by blast
  have k: "map fst row = headers" using row_keys[OF r(2)] r(4,5) by simp
  then have "set (map fst row) = set headers" by simp
  with r(5) have "py ''date'' \<in> fst ` set row" "py ''git_sha'' \<in> fst ` set row" by auto
  moreover have "headers = [py ''date'', py ''git_sha''] @ first_seen (map key_of (finditer (regex L) out))"
    using r(5) parse_results_keys[OF r(2)] by simp
  moreover have "main L w =
           (case write_csv_row L (disk w) (py ''perf_results.csv'') row headers of
              (Some e, files') \<Rightarrow> \<lparr>raised = Some e, files_after = files', printed = []\<rparr>
            | (None, files') \<Rightarrow> \<lparr>raised = None, files_after = files', printed = [row]\<rparr>)"
    using assms by (simp add: main_def)
  ultimately show ?thesis using r(1) k by blast
qed

lemma report_world_two:
  "report plat0 world_two =
     Inr ([(py ''date'', PStr (py ''2024-05-01T12:00:00'')), (py ''git_sha'', PStr (py ''unknown'')),
           (py ''C.t'', PFloat (1 / 4))],
          [py ''date'', py ''git_sha'', py ''C.t''])"
  by (simp add: report_def run_tests_def world_two_def two_reports_result get_git_sha_def
      dict_update_def dict_set_def py_def)

text \<open>
  The theorem in a world whose test output reports the test \<^verbatim>\<open>C.t\<close> twice.
\<close>

theorem report_row_and_headers_witness:
  "report plat0 world_two =
     Inr ([(py ''date'', PStr (py ''2024-05-01T12:00:00'')), (py ''git_sha'', PStr (py ''unknown'')),
           (py ''C.t'', PFloat (1 / 4))],
          [py ''date'', py ''git_sha'', py ''C.t''])
   \<and> [py ''date'', py ''git_sha'', py ''C.t''] =
       [py ''date'', py ''git_sha''] @ first_seen (map key_of (finditer (regex plat0) two_reports))"
proof -
  have "run_tests world_two = Inr two_reports" by (simp add: run_tests_def world_two_def)
  with report_row_and_headers[OF report_world_two] report_world_two show ?thesis by simp
qed

text \<open>
  Claim C7. When running the tests raises, or extracting the results from their output raises,
  \<open>main\<close> ends with that exception, the files are as they were and nothing has been printed.
\<close>

theorem failure_writes_nothing:
  assumes "run_tests w = Inl e \<or> (\<exists>out. run_tests w = Inr out \<and> parse_results L out = Inl e)"
  shows "main L w = \<lparr>raised = Some e, files_after = disk w, printed = []\<rparr>"
  using assms by (auto simp: main_def report_def)

lemma malformed_parse:
  "parse_results plat0 (py ''Test Case '-[A.B c]' measured [Time, seconds] average: 1.2.3,'')
   = Inl ValueError"
  by (simp add: eval_defs)

text \<open>
  The theorem in a world where the test tool cannot be started, and in one whose test output
  has the malformed number \<^verbatim>\<open>1.2.3\<close> while a report file exists.
\<close>

theorem failure_writes_nothing_witness:
  "main plat0 world_no_tool = \<lparr>raised = Some FileNotFoundError, files_after = on_disk Map.empty, printed = []\<rparr>
   \<and> main plat0 world_malformed =
       \<lparr>raised = Some ValueError,
        files_after = on_disk [py ''perf_results.csv'' \<mapsto> py ''date,git_sha'' @ [13, 10]],
        printed = []\<rparr>"
proof -
  have 1: "run_tests world_no_tool = Inl FileNotFoundError \<or>
      (\<exists>out. run_tests world_no_tool = Inr out \<and> parse_results plat0 out = Inl FileNotFoundError)"
    by (simp add: run_tests_def world_no_tool_def)
  have 2: "run_tests world_malformed = Inl ValueError \<or>
      (\<exists>out. run_tests world_malformed = Inr out \<and> parse_results plat0 out = Inl ValueError)"
    by (simp add: run_tests_def world_malformed_def malformed_parse)
  from failure_writes_nothing[OF 1] failure_writes_nothing[OF 2] show ?thesis
    by (simp add: world_no_tool_def world_malformed_def)
qed

text \<open>
  Claim C10. Every key of the mapping that \<open>parse_results\<close> returns is two nonempty words of
  word characters joined by a period, so it is neither \<^verbatim>\<open>date\<close> nor \<^verbatim>\<open>git_sha\<close>; and in the row
  that \<open>main\<close> assembles, \<^verbatim>\<open>date\<close> still maps to the timestamp and \<^verbatim>\<open>git_sha\<close> to the revision
  after the measurements have been merged in.
\<close>

theorem keys_never_clash:
  "(parse_results L output = Inr d \<longrightarrow>
      (\<forall>k \<in> fst ` set d.
         (\<exists>a b. k = a @ py ''.'' @ b \<and> a \<noteq> [] \<and> b \<noteq> []
            \<and> list_all (word_char L) a \<and> list_all (word_char L) b)
         \<and> k \<noteq> py ''date'' \<and> k \<noteq> py ''git_sha''))
   \<and> (report L w = Inr (row, headers) \<longrightarrow>
        map_of row (py ''date'') = Some (PStr (clock w))
        \<and> (\<exists>sha. get_git_sha (git w) = Inr sha \<and> map_of row (py ''git_sha'') = Some (PStr sha)))"
proof -
  have A: "parse_results L output = Inr d \<longrightarrow>
      (\<forall>k \<in> fst ` set d.
         (\<exists>a b. k = a @ py ''.'' @ b \<and> a \<noteq> [] \<and> b \<noteq> []
            \<and> list_all (word_char L) a \<and> list_all (word_char L) b)
         \<and> k \<noteq> py ''date'' \<and> k \<noteq> py ''git_sha'')"
    using parse_results_key_shape by blast
  have B: "report L w = Inr (row, headers) \<longrightarrow>
        map_of row (py ''date'') = Some (PStr (clock w))
        \<and> (\<exists>sha. get_git_sha (git w) = Inr sha \<and> map_of row (py ''git_sha'') = Some (PStr sha))"
  proof
    assume a: "report L w = Inr (row, headers)"
    from report_Inr[OF a] obtain out results sha where r: "run_tests w = Inr out"
      "parse_results L out = Inr results" "get_git_sha (git w) = Inr sha"
      "row = dict_update [(py ''date'', PStr (clock w)), (py ''git_sha'', PStr sha)]
                       (map (\<lambda>(k, v). (k, PFloat v)) results)" by blast
    from row_fixed_values[OF r(2)] r(3,4)
    show "map_of row (py ''date'') = Some (PStr (clock w))
        \<and> (\<exists>sha. get_git_sha (git w) = Inr sha \<and> map_of row (py ''git_sha'') = Some (PStr sha))"
      by simp
  qed
  from A B show ?thesis ..
qed

text \<open>
  The theorem at the output with two reports and the world that has it.
\<close>

theorem keys_never_clash_witness:
  "parse_results plat0 two_reports = Inr [(py ''C.t'', 1 / 4)]
   \<and> py ''C.t'' \<noteq> py ''date'' \<and> py ''C.t'' \<noteq> py ''git_sha''
   \<and> report plat0 world_two =
     Inr ([(py ''date'', PStr (py ''2024-05-01T12:00:00'')), (py ''git_sha'', PStr (py ''unknown'')),
           (py ''C.t'', PFloat (1 / 4))],
          [py ''date'', py ''git_sha'', py ''C.t''])
   \<and> map_of [(py ''date'', PStr (py ''2024-05-01T12:00:00'')), (py ''git_sha'', PStr (py ''unknown'')),
           (py ''C.t'', PFloat (1 / 4 :: rat))] (py ''date'') = Some (PStr (clock world_two))"
proof -
  have k: "py ''C.t'' \<in> fst ` set [(py ''C.t'', 1 / 4 :: rat)]" by simp
  from keys_never_clash[of plat0 two_reports "[(py ''C.t'', 1 / 4)]" world_two
      "[(py ''date'', PStr (py ''2024-05-01T12:00:00'')), (py ''git_sha'', PStr (py ''unknown'')),
           (py ''C.t'', PFloat (1 / 4))]" "[py ''date'', py ''git_sha'', py ''C.t'']"]
    two_reports_result report_world_two k
  show ?thesis by blast
qed

section \<open>Texts without a report\<close>

lemma takeWhile_first_line:
  "\<not> c 10 \<Longrightarrow> takeWhile c (first_line s) = takeWhile c s"
  unfolding first_line_def by (induction s) auto

lemma prefix_first_line:
  "10 \<notin> set l \<Longrightarrow> prefix l (first_line s) \<longleftrightarrow> prefix l s"
  unfolding first_line_def
proof (induction s arbitrary: l)
  case Nil
  then show ?case by simp
next
  case (Cons a s)
  then show ?case by (cases l) auto
qed

lemma take_first_line:
  "n \<le> length (first_line s) \<Longrightarrow> take n (first_line s) = take n s"
  unfolding first_line_def
proof (induction s arbitrary: n)
  case Nil
  then show ?case by simp
next
  case (Cons a s)
  then show ?case by (cases n) (auto split: if_splits)
qed

lemma drop_first_line:
  "n \<le> length (first_line s) \<Longrightarrow> drop n (first_line s) = first_line (drop n s)"
  unfolding first_line_def
proof (induction s arbitrary: n)
  case Nil
  then show ?case by simp
next
  case (Cons a s)
  then show ?case by (cases n) (auto split: if_splits)
qed

lemma item_ends_first_line:
  "item_avoids 10 i \<Longrightarrow>
     item_ends i (first_line s) = item_ends i s \<and>
     (\<forall>c \<in> set (item_ends i s). fst c \<le> length (first_line s))"
proof (induction i)
  case (Lit l)
  then have p: "prefix l (first_line s) \<longleftrightarrow> prefix l s"
    by (simp add: prefix_first_line)
  then show ?case by (auto dest: prefix_length_le)
next
  case (Plus c)
  then have t: "takeWhile c (first_line s) = takeWhile c s"
    by (simp add: takeWhile_first_line)
  have "length (takeWhile c (first_line s)) \<le> length (first_line s)"
    by (rule length_takeWhile_le)
  with t have "length (takeWhile c s) \<le> length (first_line s)" by simp
  with t show ?case by auto
next
  case (Group i)
  then have e: "item_ends i (first_line s) = item_ends i s"
    and b: "\<forall>c \<in> set (item_ends i s). fst c \<le> length (first_line s)"
    by simp_all
  have "map (\<lambda>(n, g). (n, take n (first_line s) # g)) (item_ends i s)
      = map (\<lambda>(n, g). (n, take n s # g)) (item_ends i s)"
    using b by (intro map_cong refl) (auto simp: take_first_line)
  with e b show ?case by auto
qed

lemma match_try_first_line:
  "list_all (item_avoids 10) p \<Longrightarrow> match_here p (first_line s) = match_here p s"
  "list_all (item_avoids 10) r \<Longrightarrow> (\<forall>c \<in> set cands. fst c \<le> length (first_line s')) \<Longrightarrow>
     try_ends r (first_line s') cands = try_ends r s' cands"
proof (induction p s and r s' cands rule: match_here_try_ends.induct)
  case (1 s)
  then show ?case by simp
next
  case (2 i r s)
  from 2(2) have a: "item_avoids 10 i" and r: "list_all (item_avoids 10) r" by simp_all
  from item_ends_first_line[OF a, of s]
  have e: "item_ends i (first_line s) = item_ends i s"
    and b: "\<forall>c \<in> set (item_ends i s). fst c \<le> length (first_line s)" by simp_all
  from 2(1)[OF r b] e show ?case by simp
next
  case (3 r s)
  then show ?case by simp
next
  case (4 r s k h cands)
  from 4(4) have k: "k \<le> length (first_line s)"
    and b: "\<forall>c \<in> set cands. fst c \<le> length (first_line s)" by simp_all
  have m: "match_here r (drop k (first_line s)) = match_here r (drop k s)"
    using 4(1)[OF 4(3)] drop_first_line[OF k] by simp
  show ?case
  proof (cases "match_here r (drop k s)")
    case None
    with 4(2)[OF None 4(3) b] m show ?thesis by simp
  next
    case (Some a)
    with m show ?thesis by simp
  qed
qed

lemma regex_avoids: "list_all (item_avoids 10) (regex L)"
  by (simp add: regex_def py_def word_char_def ascii_word_def is_digit_def digit_or_dot_def)

lemma lines_of_first: "\<exists>ls. lines_of s = first_line s # ls"
  unfolding first_line_def by (induction s) auto

lemma suffix_in_line:
  "k \<le> length s \<Longrightarrow> \<exists>l \<in> set (lines_of s). \<exists>j \<le> length l. first_line (drop k s) = drop j l"
proof (induction s arbitrary: k)
  case Nil
  then show ?case by (simp add: first_line_def)
next
  case (Cons c s)
  obtain ls where ls: "lines_of s = first_line s # ls"
    using lines_of_first by blast
  show ?case
  proof (cases k)
    case 0
    obtain ls' where "lines_of (c # s) = first_line (c # s) # ls'"
      using lines_of_first by blast
    then have "first_line (c # s) \<in> set (lines_of (c # s))" by simp
    moreover have "first_line (drop 0 (c # s)) = drop 0 (first_line (c # s))" by simp
    ultimately show ?thesis using 0 by blast
  next
    case (Suc k')
    with Cons.prems have "k' \<le> length s" by simp
    from Cons.IH[OF this] obtain l j where l: "l \<in> set (lines_of s)" and j: "j \<le> length l"
      and e: "first_line (drop k' s) = drop j l" by blast
    show ?thesis
    proof (cases "c = 10")
      case True
      with l have "l \<in> set (lines_of (c # s))" by simp
      moreover have "first_line (drop k (c # s)) = drop j l" using e Suc by simp
      ultimately show ?thesis using j by blast
    next
      case False
      show ?thesis
      proof (cases "l = first_line s")
        case True
        from False ls have "c # l \<in> set (lines_of (c # s))" using True by simp
        moreover have "Suc j \<le> length (c # l)" using j by simp
        moreover have "first_line (drop k (c # s)) = drop (Suc j) (c # l)"
          using e Suc by simp
        ultimately show ?thesis by blast
      next
        case False
        with l ls have "l \<in> set ls" by simp
        with \<open>c \<noteq> 10\<close> ls have "l \<in> set (lines_of (c # s))" by simp
        moreover have "first_line (drop k (c # s)) = drop j l" using e Suc by simp
        ultimately show ?thesis using j by blast
      qed
    qed
  qed
qed

lemma no_line_no_match:
  assumes "\<forall>l \<in> set (lines_of output). finditer p l = []"
    and p: "list_all (item_avoids 10) p"
  shows "finditer p output = []"
proof -
  have "\<forall>k \<le> length output. match_here p (drop k output) = None"
  proof (intro allI impI)
    fix k assume "k \<le> length output"
    from suffix_in_line[OF this] obtain l j where l: "l \<in> set (lines_of output)"
      and j: "j \<le> length l" and e: "first_line (drop k output) = drop j l" by blast
    from assms(1) l have "scan p 0 l = []" by (simp add: finditer_def)
    then have "match_here p (drop j l) = None" using j by (simp add: scan_Nil_iff)
    with e have "match_here p (first_line (drop k output)) = None" by simp
    then show "match_here p (drop k output) = None"
      by (simp add: match_try_first_line(1)[OF p])
  qed
  then show ?thesis by (simp add: finditer_def scan_Nil_iff)
qed

text \<open>
  Claim C9. When no line of the text has a match of the pattern, the text has no match either,
  since no part of the pattern can match a line feed; \<open>parse_results\<close> then returns the empty
  mapping and raises nothing.
\<close>

theorem no_matching_line_empty:
  assumes "\<forall>l \<in> set (lines_of output). finditer (regex L) l = []"
  shows "finditer (regex L) output = [] \<and> parse_results L output = Inr []"
proof -
  from no_line_no_match[OF assms regex_avoids]
  have "finditer (regex L) output = []" .
  then show ?thesis by (simp add: parse_results_def)
qed

lemma no_reports_lines:
  "lines_of no_reports =
     [py ''Test Suite 'All tests' started.'',
      py ''Test Case '-[TendrilTreeTests.testInsert] measured [Time, seconds] average: 0.003,'',
      []]"
  by (simp add: no_reports_def py_def)

lemma no_reports_quiet:
  "list_all (\<lambda>l. finditer (regex plat0) l = []) (lines_of no_reports)"
  unfolding no_reports_lines by (simp add: eval_defs)

text \<open>
  The theorem at an output of three lines, none of which has a match.
\<close>

theorem no_matching_line_empty_witness:
  "list_all (\<lambda>l. finditer (regex plat0) l = []) (lines_of no_reports) \<and>
   length (lines_of no_reports) = 3 \<and>
   parse_results plat0 no_reports = Inr []"
proof -
  have h: "\<forall>l \<in> set (lines_of no_reports). finditer (regex plat0) l = []"
    using no_reports_quiet by (simp add: list_all_iff)
  from no_matching_line_empty[OF h] no_reports_quiet show ?thesis
    by (simp add: no_reports_lines)
qed

section \<open>Matching line by line, and scenario A\<close>






















end
